theory Spec2Isabelle
  imports Main "HOL-Library.Sublist" "HOL-Library.AList" "HOL-Library.Code_Target_Numeral"
begin

section \<open>Deployment helpers of publish/src/util.js\<close>

text \<open>
  The helpers of \<^verbatim>\<open>publish/src/util.js\<close> are embedded as HOL functions.
  A JavaScript string is a \<^typ>\<open>string\<close>; a thrown value or a rejected promise is
  the left summand of a result \<open>jserror + 'a\<close>; the process environment, the file system
  and the objects a helper receives are explicit arguments, and a helper that writes
  files returns the file system it leaves. What the file imports from elsewhere (the list
  \<^verbatim>\<open>networks\<close>, the file-name constants, \<^verbatim>\<open>path.join\<close>, the loaders made by
  \<^verbatim>\<open>wrap\<close>, the calls into ethers) is an argument of the function that uses it.
  \<^verbatim>\<open>JSON.stringify\<close> and \<^verbatim>\<open>JSON.parse\<close> are written out after the
  language standard. Console output is left out: no property below depends on it.
\<close>

subsection \<open>Errors\<close>

text \<open>An error object: its \<^verbatim>\<open>name\<close> and its \<^verbatim>\<open>message\<close>.\<close>

datatype jserror = JSError (ename: string) (message: string)

definition Error :: "string \<Rightarrow> jserror" where
  "Error msg = JSError ''Error'' msg"

definition TypeError :: "string \<Rightarrow> jserror" where
  "TypeError msg = JSError ''TypeError'' msg"

text \<open>
  \<^verbatim>\<open>SyntaxError\<close> is what \<^verbatim>\<open>JSON.parse\<close> throws. \<open>Unmodelled\<close> marks the
  places where the embedding does not follow the source: it says nothing about what the
  source does there.
\<close>

definition SyntaxError :: "string \<Rightarrow> jserror" where
  "SyntaxError msg = JSError ''SyntaxError'' msg"

definition Unmodelled :: "string \<Rightarrow> jserror" where
  "Unmodelled msg = JSError ''Unmodelled'' msg"

subsection \<open>Strings and decimal numerals\<close>

text \<open>\<^verbatim>\<open>Array.prototype.join\<close> on an array of strings.\<close>

fun join :: "string \<Rightarrow> string list \<Rightarrow> string" where
  "join sep [] = []"
| "join sep [x] = x"
| "join sep (x # y # ys) = x @ sep @ join sep (y # ys)"

text \<open>The decimal digits of a number, as \<^verbatim>\<open>Number.prototype.toString\<close> gives them
  for an integer.\<close>

fun nat_to_dec :: "nat \<Rightarrow> string" where
  "nat_to_dec n =
     (if n < 10 then [char_of (48 + n)] else nat_to_dec (n div 10) @ [char_of (48 + n mod 10)])"

declare nat_to_dec.simps [simp del]

definition int_to_dec :: "int \<Rightarrow> string" where
  "int_to_dec i = (if i < 0 then CHR ''-'' # nat_to_dec (nat (- i)) else nat_to_dec (nat i))"

subsection \<open>JSON values\<close>

text \<open>
  The values that \<^verbatim>\<open>JSON.parse\<close> produces and that the files of a deployment hold.
  A number is an integer of magnitude at most \<open>2^53 - 1\<close>, where a double is exact; an
  object is the list of its properties in their order, with one entry for each key.
  (The engine lists keys that are array indices first; the list does not reorder them.)
\<close>

datatype json =
    JNull
  | JBool bool
  | JNum int
  | JStr string
  | JArr "json list"
  | JObj "(string \<times> json) list"

text \<open>\<^verbatim>\<open>value[key]\<close>: arrays and primitive values have no named property here.\<close>

definition lookup :: "json \<Rightarrow> string \<Rightarrow> json option" where
  "lookup v k = (case v of JObj kvs \<Rightarrow> map_of kvs k | _ \<Rightarrow> None)"

subsection \<open>stringify\<close>

text \<open>
  \<^verbatim>\<open>JSON.stringify(input, JSONreplacer, '\t') + '\n'\<close>. \<open>LF\<close> is the line feed,
  \<open>TAB\<close> the tab, \<open>DQ\<close> the double quote and \<open>BSL\<close> the backslash.
\<close>

abbreviation LF :: char where "LF \<equiv> CHR 0x0A"
abbreviation TAB :: char where "TAB \<equiv> CHR 0x09"
abbreviation DQ :: char where "DQ \<equiv> CHR 0x22"
abbreviation BSL :: char where "BSL \<equiv> CHR 0x5C"

text \<open>
  \<^verbatim>\<open>QuoteJSONString\<close>: the quote, the backslash and the control characters are
  escaped, the five with a short escape by it and the others as \<^verbatim>\<open>\u00XX\<close>.
\<close>

definition hex_digit :: "nat \<Rightarrow> char" where
  "hex_digit d = ''0123456789abcdef'' ! d"

definition quote_char :: "char \<Rightarrow> string" where
  "quote_char c =
     (if c = CHR 0x08 then [BSL, CHR ''b'']
      else if c = TAB then [BSL, CHR ''t'']
      else if c = LF then [BSL, CHR ''n'']
      else if c = CHR 0x0C then [BSL, CHR ''f'']
      else if c = CHR 0x0D then [BSL, CHR ''r'']
      else if c = DQ then [BSL, DQ]
      else if c = BSL then [BSL, BSL]
      else if (of_char c :: nat) < 0x20
        then [BSL, CHR ''u'', CHR ''0'', CHR ''0'',
              hex_digit (of_char c div 16), hex_digit (of_char c mod 16)]
      else [c])"

definition QuoteJSONString :: "string \<Rightarrow> string" where
  "QuoteJSONString s = DQ # concat (map quote_char s) @ [DQ]"

text \<open>
  The replacer. \<^verbatim>\<open>typeof value === 'object'\<close> holds of \<^verbatim>\<open>null\<close>, of arrays and
  of objects. \<^verbatim>\<open>BigNumber.from(value).toString()\<close> belongs to ethers and is an
  argument; it throws on a value it does not accept. A BigNumber of ethers reaches the
  replacer as the object its \<^verbatim>\<open>toJSON\<close> returns, which has this shape.
\<close>

definition typeof_object :: "json \<Rightarrow> bool" where
  "typeof_object v = (case v of JNull \<Rightarrow> True | JArr _ \<Rightarrow> True | JObj _ \<Rightarrow> True | _ \<Rightarrow> False)"

definition isArray :: "json \<Rightarrow> bool" where
  "isArray v = (case v of JArr _ \<Rightarrow> True | _ \<Rightarrow> False)"

definition BigNumber_shaped :: "json \<Rightarrow> bool" where
  "BigNumber_shaped v =
     (typeof_object v \<and> v \<noteq> JNull \<and> lookup v ''type'' = Some (JStr ''BigNumber'') \<and> \<not> isArray v)"

definition JSONreplacer :: "(json \<Rightarrow> jserror + string) \<Rightarrow> string \<Rightarrow> json \<Rightarrow> jserror + json" where
  "JSONreplacer BigNumber_from_toString key v =
     (if BigNumber_shaped v
      then (case BigNumber_from_toString v of Inl e \<Rightarrow> Inl e | Inr s \<Rightarrow> Inr (JStr s))
      else Inr v)"

lemma JSONreplacer_cases:
  "JSONreplacer bn key v = Inr v' \<Longrightarrow> v' = v \<or> (\<exists>s. v' = JStr s)"
  by (auto simp: JSONreplacer_def split: if_splits sum.splits)

text \<open>
  \<^verbatim>\<open>SerializeJSONProperty\<close>, \<^verbatim>\<open>SerializeJSONArray\<close> and
  \<^verbatim>\<open>SerializeJSONObject\<close> of the standard, with the gap \<open>[TAB]\<close>: the replacer is
  called on every value with its key (the index, for an element of an array), and what it
  returns is serialized; the members of a non-empty array or object stand on lines of
  their own, indented one tab deeper than the line that opens it.
\<close>

function SerializeJSONProperty ::
    "(json \<Rightarrow> jserror + string) \<Rightarrow> string \<Rightarrow> string \<Rightarrow> json \<Rightarrow> jserror + string"
  and SerializeJSONArrayElements ::
    "(json \<Rightarrow> jserror + string) \<Rightarrow> string \<Rightarrow> nat \<Rightarrow> json list \<Rightarrow> jserror + string list"
  and SerializeJSONObjectMembers ::
    "(json \<Rightarrow> jserror + string) \<Rightarrow> string \<Rightarrow> (string \<times> json) list \<Rightarrow> jserror + string list"
where
  "SerializeJSONProperty bn indent key v =
     (case JSONreplacer bn key v of
        Inl e \<Rightarrow> Inl e
      | Inr JNull \<Rightarrow> Inr ''null''
      | Inr (JBool b) \<Rightarrow> Inr (if b then ''true'' else ''false'')
      | Inr (JNum n) \<Rightarrow> Inr (int_to_dec n)
      | Inr (JStr s) \<Rightarrow> Inr (QuoteJSONString s)
      | Inr (JArr xs) \<Rightarrow>
          (case SerializeJSONArrayElements bn (indent @ [TAB]) 0 xs of
             Inl e \<Rightarrow> Inl e
           | Inr partial \<Rightarrow>
               Inr (if partial = [] then ''[]''
                    else ''['' @ [LF] @ (indent @ [TAB]) @
                         join ('','' @ [LF] @ (indent @ [TAB])) partial @
                         [LF] @ indent @ '']''))
      | Inr (JObj kvs) \<Rightarrow>
          (case SerializeJSONObjectMembers bn (indent @ [TAB]) kvs of
             Inl e \<Rightarrow> Inl e
           | Inr partial \<Rightarrow>
               Inr (if partial = [] then ''{}''
                    else ''{'' @ [LF] @ (indent @ [TAB]) @
                         join ('','' @ [LF] @ (indent @ [TAB])) partial @
                         [LF] @ indent @ ''}'')))"
| "SerializeJSONArrayElements bn indent i [] = Inr []"
| "SerializeJSONArrayElements bn indent i (x # xs) =
     (case SerializeJSONProperty bn indent (nat_to_dec i) x of
        Inl e \<Rightarrow> Inl e
      | Inr strP \<Rightarrow>
          (case SerializeJSONArrayElements bn indent (Suc i) xs of
             Inl e \<Rightarrow> Inl e
           | Inr partial \<Rightarrow> Inr (strP # partial)))"
| "SerializeJSONObjectMembers bn indent [] = Inr []"
| "SerializeJSONObjectMembers bn indent ((k, x) # kvs) =
     (case SerializeJSONProperty bn indent k x of
        Inl e \<Rightarrow> Inl e
      | Inr strP \<Rightarrow>
          (case SerializeJSONObjectMembers bn indent kvs of
             Inl e \<Rightarrow> Inl e
           | Inr partial \<Rightarrow> Inr ((QuoteJSONString k @ '': '' @ strP) # partial)))"
  by pat_completeness auto
termination
  apply (relation "measure (\<lambda>x. case x of
       Inl (bn, ind, key, v) \<Rightarrow> 2 * size v + 1
     | Inr (Inl (bn, ind, i, xs)) \<Rightarrow> 2 * size_list size xs
     | Inr (Inr (bn, ind, kvs)) \<Rightarrow> 2 * size_list (size_prod (\<lambda>_. 0) size) kvs)")
  apply (auto dest!: JSONreplacer_cases)
  done

definition stringify :: "(json \<Rightarrow> jserror + string) \<Rightarrow> json \<Rightarrow> jserror + string" where
  "stringify bn input =
     (case SerializeJSONProperty bn [] [] input of
        Inl e \<Rightarrow> Inl e
      | Inr s \<Rightarrow> Inr (s @ [LF]))"

subsection \<open>JSON.parse\<close>

text \<open>
  White space is the space, the tab, the line feed and the carriage return. A string may
  hold any character but the quote, the backslash and the control characters, and the
  escapes of the standard; an escape \<^verbatim>\<open>\uXXXX\<close> above \<^verbatim>\<open>\u00FF\<close> has no
  \<^typ>\<open>char\<close> and is \<open>Unmodelled\<close>.
\<close>

definition is_ws :: "char \<Rightarrow> bool" where
  "is_ws c = (c = CHR 0x20 \<or> c = TAB \<or> c = LF \<or> c = CHR 0x0D)"

definition skip_ws :: "string \<Rightarrow> string" where
  "skip_ws = dropWhile is_ws"

definition is_digit :: "char \<Rightarrow> bool" where
  "is_digit c = (48 \<le> (of_char c :: nat) \<and> (of_char c :: nat) \<le> 57)"

definition digit_val :: "char \<Rightarrow> nat" where
  "digit_val c = of_char c - 48"

definition dec_to_nat :: "string \<Rightarrow> nat" where
  "dec_to_nat ds = foldl (\<lambda>a c. 10 * a + digit_val c) 0 ds"

definition hex_val :: "char \<Rightarrow> nat option" where
  "hex_val c =
     (let n = (of_char c :: nat) in
      if 48 \<le> n \<and> n \<le> 57 then Some (n - 48)
      else if 97 \<le> n \<and> n \<le> 102 then Some (n - 87)
      else if 65 \<le> n \<and> n \<le> 70 then Some (n - 55)
      else None)"

definition unescape :: "char \<Rightarrow> char option" where
  "unescape e =
     (if e = DQ then Some DQ
      else if e = BSL then Some BSL
      else if e = CHR ''/'' then Some CHR ''/''
      else if e = CHR ''b'' then Some (CHR 0x08)
      else if e = CHR ''f'' then Some (CHR 0x0C)
      else if e = CHR ''n'' then Some LF
      else if e = CHR ''r'' then Some (CHR 0x0D)
      else if e = CHR ''t'' then Some TAB
      else None)"

definition unicode_escape :: "char \<Rightarrow> char \<Rightarrow> char \<Rightarrow> char \<Rightarrow> jserror + char" where
  "unicode_escape h1 h2 h3 h4 =
     (case (hex_val h1, hex_val h2, hex_val h3, hex_val h4) of
        (Some a, Some b, Some c, Some d) \<Rightarrow>
          (if ((a * 16 + b) * 16 + c) * 16 + d < 256
           then Inr (char_of (((a * 16 + b) * 16 + c) * 16 + d))
           else Inl (Unmodelled ''code unit above 0xFF''))
      | _ \<Rightarrow> Inl (SyntaxError ''Bad Unicode escape in JSON''))"

fun parse_chars :: "string \<Rightarrow> jserror + (string \<times> string)" where
  "parse_chars [] = Inl (SyntaxError ''Unterminated string in JSON'')"
| "parse_chars (c # cs) =
     (if c = DQ then Inr ([], cs)
      else if c = BSL then
        (case cs of
           [] \<Rightarrow> Inl (SyntaxError ''Unterminated string in JSON'')
         | e # cs1 \<Rightarrow>
             (if e = CHR ''u'' then
                (case cs1 of
                   h1 # h2 # h3 # h4 # cs2 \<Rightarrow>
                     (case unicode_escape h1 h2 h3 h4 of
                        Inl err \<Rightarrow> Inl err
                      | Inr ch \<Rightarrow>
                          (case parse_chars cs2 of
                             Inl err \<Rightarrow> Inl err
                           | Inr (s, rest) \<Rightarrow> Inr (ch # s, rest)))
                 | _ \<Rightarrow> Inl (SyntaxError ''Bad Unicode escape in JSON''))
              else
                (case unescape e of
                   None \<Rightarrow> Inl (SyntaxError ''Bad escaped character in JSON'')
                 | Some ch \<Rightarrow>
                     (case parse_chars cs1 of
                        Inl err \<Rightarrow> Inl err
                      | Inr (s, rest) \<Rightarrow> Inr (ch # s, rest)))))
      else if (of_char c :: nat) < 0x20 then Inl (SyntaxError ''Bad control character in string literal in JSON'')
      else
        (case parse_chars cs of
           Inl err \<Rightarrow> Inl err
         | Inr (s, rest) \<Rightarrow> Inr (c # s, rest)))"

text \<open>
  A number is an optional minus sign and an integer part without a leading zero. A
  fraction, an exponent and an integer beyond \<open>2^53 - 1\<close> are \<open>Unmodelled\<close>.
\<close>

definition integer_part :: "string \<Rightarrow> string" where
  "integer_part s =
     (case s of c # _ \<Rightarrow> if c = CHR ''0'' then [c] else takeWhile is_digit s | [] \<Rightarrow> [])"

definition parse_unsigned :: "string \<Rightarrow> jserror + (nat \<times> string)" where
  "parse_unsigned s =
     (let ds = integer_part s;
          rest = drop (length ds) s
      in
      if ds = [] then Inl (SyntaxError ''No number after minus sign in JSON'')
      else if (case rest of c # _ \<Rightarrow> c = CHR ''.'' \<or> c = CHR ''e'' \<or> c = CHR ''E'' | [] \<Rightarrow> False)
        then Inl (Unmodelled ''number with a fraction or an exponent'')
      else if dec_to_nat ds > 2 ^ 53 - 1 then Inl (Unmodelled ''integer beyond the safe range'')
      else Inr (dec_to_nat ds, rest))"

definition parse_number :: "string \<Rightarrow> jserror + (int \<times> string)" where
  "parse_number s =
     (if (case s of c # _ \<Rightarrow> c = CHR ''-'' | [] \<Rightarrow> False)
      then (case parse_unsigned (tl s) of
              Inl err \<Rightarrow> Inl err
            | Inr (n, rest) \<Rightarrow> Inr (- int n, rest))
      else (case parse_unsigned s of
              Inl err \<Rightarrow> Inl err
            | Inr (n, rest) \<Rightarrow> Inr (int n, rest)))"

definition parse_literal :: "string \<Rightarrow> json \<Rightarrow> string \<Rightarrow> jserror + (json \<times> string)" where
  "parse_literal word v s =
     (if prefix word s then Inr (v, drop (length word) s)
      else Inl (SyntaxError ''Unexpected token in JSON''))"

text \<open>
  The parser descends by recursion on a counter; \<open>JSON_parse\<close> starts it at twice the
  length of the text plus one. A repeated key keeps its place and takes the later value,
  as \<^verbatim>\<open>CreateDataProperty\<close> does.
\<close>

fun parse_value :: "nat \<Rightarrow> string \<Rightarrow> jserror + (json \<times> string)"
  and parse_elements :: "nat \<Rightarrow> json list \<Rightarrow> string \<Rightarrow> jserror + (json list \<times> string)"
  and parse_members ::
    "nat \<Rightarrow> (string \<times> json) list \<Rightarrow> string \<Rightarrow> jserror + ((string \<times> json) list \<times> string)"
where
  "parse_value 0 s = Inl (Unmodelled ''out of fuel'')"
| "parse_value (Suc n) s =
     (case skip_ws s of
        [] \<Rightarrow> Inl (SyntaxError ''Unexpected end of JSON input'')
      | c # cs \<Rightarrow>
          (if c = CHR ''{'' then
             (case skip_ws cs of
                [] \<Rightarrow> Inl (SyntaxError ''Unexpected end of JSON input'')
              | d # ds \<Rightarrow>
                  (if d = CHR ''}'' then Inr (JObj [], ds)
                   else (case parse_members n [] (d # ds) of
                           Inl err \<Rightarrow> Inl err
                         | Inr (kvs, rest) \<Rightarrow> Inr (JObj kvs, rest))))
           else if c = CHR ''['' then
             (case skip_ws cs of
                [] \<Rightarrow> Inl (SyntaxError ''Unexpected end of JSON input'')
              | d # ds \<Rightarrow>
                  (if d = CHR '']'' then Inr (JArr [], ds)
                   else (case parse_elements n [] (d # ds) of
                           Inl err \<Rightarrow> Inl err
                         | Inr (xs, rest) \<Rightarrow> Inr (JArr xs, rest))))
           else if c = DQ then
             (case parse_chars cs of
                Inl err \<Rightarrow> Inl err
              | Inr (str, rest) \<Rightarrow> Inr (JStr str, rest))
           else if c = CHR ''t'' then parse_literal ''true'' (JBool True) (c # cs)
           else if c = CHR ''f'' then parse_literal ''false'' (JBool False) (c # cs)
           else if c = CHR ''n'' then parse_literal ''null'' JNull (c # cs)
           else if c = CHR ''-'' \<or> is_digit c then
             (case parse_number (c # cs) of
                Inl err \<Rightarrow> Inl err
              | Inr (i, rest) \<Rightarrow> Inr (JNum i, rest))
           else Inl (SyntaxError ''Unexpected token in JSON'')))"
| "parse_elements 0 acc s = Inl (Unmodelled ''out of fuel'')"
| "parse_elements (Suc n) acc s =
     (case parse_value n s of
        Inl err \<Rightarrow> Inl err
      | Inr (v, rest) \<Rightarrow>
          (case skip_ws rest of
             [] \<Rightarrow> Inl (SyntaxError ''Unexpected end of JSON input'')
           | c # cs \<Rightarrow>
               (if c = CHR '','' then parse_elements n (acc @ [v]) cs
                else if c = CHR '']'' then Inr (acc @ [v], cs)
                else Inl (SyntaxError ''Unexpected token in JSON''))))"
| "parse_members 0 acc s = Inl (Unmodelled ''out of fuel'')"
| "parse_members (Suc n) acc s =
     (case skip_ws s of
        [] \<Rightarrow> Inl (SyntaxError ''Unexpected end of JSON input'')
      | q # cs \<Rightarrow>
          (if q \<noteq> DQ then Inl (SyntaxError ''Unexpected token in JSON'')
           else
             (case parse_chars cs of
                Inl err \<Rightarrow> Inl err
              | Inr (k, rest) \<Rightarrow>
                  (case skip_ws rest of
                     [] \<Rightarrow> Inl (SyntaxError ''Unexpected end of JSON input'')
                   | colon # cs1 \<Rightarrow>
                       (if colon \<noteq> CHR '':'' then Inl (SyntaxError ''Unexpected token in JSON'')
                        else
                          (case parse_value n cs1 of
                             Inl err \<Rightarrow> Inl err
                           | Inr (v, rest1) \<Rightarrow>
                               (case skip_ws rest1 of
                                  [] \<Rightarrow> Inl (SyntaxError ''Unexpected end of JSON input'')
                                | c # cs2 \<Rightarrow>
                                    (if c = CHR '','' then parse_members n (AList.update k v acc) cs2
                                     else if c = CHR ''}'' then Inr (AList.update k v acc, cs2)
                                     else Inl (SyntaxError ''Unexpected token in JSON'')))))))))"

definition JSON_parse :: "string \<Rightarrow> jserror + json" where
  "JSON_parse text =
     (case parse_value (2 * length text + 1) text of
        Inl err \<Rightarrow> Inl err
      | Inr (v, rest) \<Rightarrow>
          (if skip_ws rest = [] then Inr v
           else Inl (SyntaxError ''Unexpected non-whitespace character after JSON'')))"

subsection \<open>allowZeroOrUpdateIfNonZero\<close>

text \<open>\<^verbatim>\<open>param => input => param === '0' || input !== '0'\<close>\<close>

definition allowZeroOrUpdateIfNonZero :: "string \<Rightarrow> string \<Rightarrow> bool" where
  "allowZeroOrUpdateIfNonZero param input = (param = ''0'' \<or> input \<noteq> ''0'')"

subsection \<open>ensureNetwork\<close>

text \<open>
  The list \<^verbatim>\<open>networks\<close> comes from the package's index and is an argument here.
  The message is the template literal of the source; \<open>CHR 0x22\<close> is the double quote.
\<close>

definition ensureNetwork :: "string list \<Rightarrow> string \<Rightarrow> jserror + unit" where
  "ensureNetwork networks network =
     (if network \<notin> set networks
      then Inl (Error (''Invalid network name of '' @ [CHR 0x22] @ network @ [CHR 0x22] @
                       '' supplied. Must be one of '' @ join '', '' networks @ ''.''))
      else Inr ())"

subsection \<open>loadAndCheckRequiredSources\<close>

text \<open>
  The file system maps a path to the text of the file there. \<^verbatim>\<open>readFileSync\<close> of a
  path with no file throws; \<^verbatim>\<open>writeFileSync\<close> creates or replaces the file.
\<close>

type_synonym filesystem = "string \<rightharpoonup> string"

definition existsSync :: "filesystem \<Rightarrow> string \<Rightarrow> bool" where
  "existsSync fs path = (fs path \<noteq> None)"

definition readFileSync :: "filesystem \<Rightarrow> string \<Rightarrow> jserror + string" where
  "readFileSync fs path =
     (case fs path of
        None \<Rightarrow> Inl (Error (''ENOENT: no such file or directory, open '' @ [CHR 0x27] @ path @ [CHR 0x27]))
      | Some text \<Rightarrow> Inr text)"

definition writeFileSync :: "filesystem \<Rightarrow> string \<Rightarrow> string \<Rightarrow> filesystem" where
  "writeFileSync fs path text = fs(path \<mapsto> text)"

definition read_json :: "filesystem \<Rightarrow> string \<Rightarrow> jserror + json" where
  "read_json fs path =
     (case readFileSync fs path of Inl err \<Rightarrow> Inl err | Inr text \<Rightarrow> JSON_parse text)"

text \<open>
  \<^verbatim>\<open>deployment.targets = {}\<close>. The file is in strict mode: the assignment throws a
  TypeError on \<^verbatim>\<open>null\<close> and on a primitive value. On an object the property is
  replaced where it stands or added last. An array with a named property is not a
  \<^typ>\<open>json\<close> value.
\<close>

definition set_property :: "json \<Rightarrow> string \<Rightarrow> json \<Rightarrow> jserror + json" where
  "set_property obj k x =
     (case obj of
        JObj kvs \<Rightarrow> Inr (JObj (AList.update k x kvs))
      | JNull \<Rightarrow> Inl (TypeError (''Cannot set properties of null (setting '' @ [CHR 0x27] @ k @ [CHR 0x27] @ '')''))
      | JArr xs \<Rightarrow> Inl (Unmodelled ''named property of an array'')
      | _ \<Rightarrow> Inl (TypeError (''Cannot create property '' @ [CHR 0x27] @ k @ [CHR 0x27] @ '' on a primitive value'')))"

text \<open>
  What the function takes from its imports: the file names, \<^verbatim>\<open>path.join\<close>, the
  five loaders made by \<^verbatim>\<open>wrap({path, fs})\<close>, which read the file system, are
  given the network and the deployment path and return a value or throw, and the
  conversion of ethers that \<open>stringify\<close> uses.
\<close>

record deps =
  CONFIG_FILENAME :: string
  PARAMS_FILENAME :: string
  DEPLOYMENT_FILENAME :: string
  OWNER_ACTIONS_FILENAME :: string
  SYNTHS_FILENAME :: string
  STAKING_REWARDS_FILENAME :: string
  SHORTING_REWARDS_FILENAME :: string
  VERSIONS_FILENAME :: string
  FEEDS_FILENAME :: string
  FUTURES_MARKETS_FILENAME :: string
  path_join :: "string \<Rightarrow> string \<Rightarrow> string"
  getSynths :: "filesystem \<Rightarrow> string \<Rightarrow> string \<Rightarrow> jserror + json"
  getStakingRewards :: "filesystem \<Rightarrow> string \<Rightarrow> string \<Rightarrow> jserror + json"
  getShortingRewards :: "filesystem \<Rightarrow> string \<Rightarrow> string \<Rightarrow> jserror + json"
  getVersions :: "filesystem \<Rightarrow> string \<Rightarrow> string \<Rightarrow> jserror + json"
  getFeeds :: "filesystem \<Rightarrow> string \<Rightarrow> string \<Rightarrow> jserror + json"
  BigNumber_from_toString :: "json \<Rightarrow> jserror + string"

text \<open>The object the function returns.\<close>

record sources =
  config :: json
  params :: json
  configFile :: string
  synths :: json
  synthsFile :: string
  stakingRewards :: json
  stakingRewardsFile :: string
  futuresMarkets :: json
  futuresMarketsFile :: string
  deployment :: json
  deploymentFile :: string
  ownerActions :: json
  ownerActionsFile :: string
  versions :: json
  versionsFile :: string
  feeds :: json
  feedsFile :: string
  shortingRewards :: json
  shortingRewardsFile :: string

text \<open>
  \<^verbatim>\<open>if (!fs.existsSync(file)) fs.writeFileSync(file, stringify(dflt));\<close> followed by
  \<^verbatim>\<open>JSON.parse(fs.readFileSync(file))\<close>: the value, and the file system left.
\<close>

definition load_or_create ::
    "deps \<Rightarrow> filesystem \<Rightarrow> string \<Rightarrow> json \<Rightarrow> (jserror + json) \<times> filesystem" where
  "load_or_create d fs file dflt =
     (if \<not> existsSync fs file then
        (case stringify (BigNumber_from_toString d) dflt of
           Inl err \<Rightarrow> (Inl err, fs)
         | Inr text \<Rightarrow> (read_json (writeFileSync fs file text) file, writeFileSync fs file text))
      else (read_json fs file, fs))"

text \<open>
  The statements of the function run in their order; \<open>propagate\<close> passes the value of
  one that returned to the rest, and leaves with the error and the file system as it is
  when one threw.
\<close>

definition propagate ::
    "jserror + 'a \<Rightarrow> filesystem \<Rightarrow> ('a \<Rightarrow> (jserror + 'b) \<times> filesystem) \<Rightarrow>
     (jserror + 'b) \<times> filesystem" where
  "propagate result fs continue =
     (case result of Inl err \<Rightarrow> (Inl err, fs) | Inr v \<Rightarrow> continue v)"

definition loadAndCheckRequiredSources ::
    "deps \<Rightarrow> filesystem \<Rightarrow> string \<Rightarrow> string \<Rightarrow> bool \<Rightarrow> (jserror + sources) \<times> filesystem" where
  "loadAndCheckRequiredSources d fs deploymentPath network freshDeploy =
     propagate (getSynths d fs network deploymentPath) fs (\<lambda>synths_v.
     propagate (getStakingRewards d fs network deploymentPath) fs (\<lambda>stakingRewards_v.
     propagate (getShortingRewards d fs network deploymentPath) fs (\<lambda>shortingRewards_v.
     propagate (read_json fs (path_join d deploymentPath (CONFIG_FILENAME d))) fs (\<lambda>config_v.
     propagate (read_json fs (path_join d deploymentPath (PARAMS_FILENAME d))) fs (\<lambda>params_v.
     propagate (read_json fs (path_join d deploymentPath (FUTURES_MARKETS_FILENAME d))) fs
       (\<lambda>futuresMarkets_v.
     propagate (if network \<noteq> ''local'' then getVersions d fs network deploymentPath
                else Inr (JObj [])) fs (\<lambda>versions_v.
     propagate (getFeeds d fs network deploymentPath) fs (\<lambda>feeds_v.
     (let (loaded, fs1) =
            load_or_create d fs (path_join d deploymentPath (DEPLOYMENT_FILENAME d))
              (JObj [(''targets'', JObj []), (''sources'', JObj [])])
      in
     propagate loaded fs1 (\<lambda>deployment_0.
     propagate (if freshDeploy then
                  (case set_property deployment_0 ''targets'' (JObj []) of
                     Inl err \<Rightarrow> Inl err
                   | Inr deployment_1 \<Rightarrow> set_property deployment_1 ''sources'' (JObj []))
                else Inr deployment_0) fs1 (\<lambda>deployment_v.
     (let (loaded_actions, fs2) =
            load_or_create d fs1 (path_join d deploymentPath (OWNER_ACTIONS_FILENAME d)) (JObj [])
      in
     propagate loaded_actions fs2 (\<lambda>ownerActions_v.
       (Inr \<lparr> config = config_v,
              params = params_v,
              configFile = path_join d deploymentPath (CONFIG_FILENAME d),
              synths = synths_v,
              synthsFile = path_join d deploymentPath (SYNTHS_FILENAME d),
              stakingRewards = stakingRewards_v,
              stakingRewardsFile = path_join d deploymentPath (STAKING_REWARDS_FILENAME d),
              futuresMarkets = futuresMarkets_v,
              futuresMarketsFile = path_join d deploymentPath (FUTURES_MARKETS_FILENAME d),
              deployment = deployment_v,
              deploymentFile = path_join d deploymentPath (DEPLOYMENT_FILENAME d),
              ownerActions = ownerActions_v,
              ownerActionsFile = path_join d deploymentPath (OWNER_ACTIONS_FILENAME d),
              versions = versions_v,
              versionsFile = path_join d deploymentPath (VERSIONS_FILENAME d),
              feeds = feeds_v,
              feedsFile = path_join d deploymentPath (FEEDS_FILENAME d),
              shortingRewards = shortingRewards_v,
              shortingRewardsFile = path_join d deploymentPath (SHORTING_REWARDS_FILENAME d) \<rparr>,
        fs2))))))))))))))"

subsection \<open>getExplorerLinkPrefix\<close>

definition getExplorerLinkPrefix :: "string \<Rightarrow> bool \<Rightarrow> string" where
  "getExplorerLinkPrefix network useOvm =
     ''https://'' @
     (if network \<noteq> ''mainnet'' then network @ (if useOvm then ''-'' else ''.'') else []) @
     (if useOvm then ''explorer.optimism'' else ''etherscan'') @
     ''.io''"

subsection \<open>loadConnections\<close>

text \<open>
  \<^verbatim>\<open>process.env\<close> maps a variable's name to its value; an unset variable reads as
  \<^verbatim>\<open>undefined\<close>, here \<open>None\<close>. A value is truthy when it is set and not empty.
\<close>

type_synonym environment = "string \<rightharpoonup> string"

definition truthy_env :: "string option \<Rightarrow> bool" where
  "truthy_env v = (case v of None \<Rightarrow> False | Some s \<Rightarrow> s \<noteq> [])"

text \<open>
  \<^verbatim>\<open>String.prototype.replace\<close> with a string pattern: the first occurrence is
  replaced, and in the replacement \<^verbatim>\<open>$$\<close> stands for a dollar sign,
  \<^verbatim>\<open>$&\<close> for the matched text, \<^verbatim>\<open>$`\<close> for the text before the match and
  \<^verbatim>\<open>$'\<close> for the text after it (\<open>CHR 0x24\<close> is the dollar sign, \<open>CHR 0x26\<close> the
  ampersand, \<open>CHR 0x60\<close> the backtick, \<open>CHR 0x27\<close> the quote). A string pattern has no
  capture groups, so every other use of the dollar sign stays as it is.
\<close>

fun split_first :: "string \<Rightarrow> string \<Rightarrow> (string \<times> string) option" where
  "split_first pat [] = (if pat = [] then Some ([], []) else None)"
| "split_first pat (c # cs) =
     (if prefix pat (c # cs) then Some ([], drop (length pat) (c # cs))
      else case split_first pat cs of
             None \<Rightarrow> None
           | Some (bef, aft) \<Rightarrow> Some (c # bef, aft))"

fun get_substitution :: "string \<Rightarrow> string \<Rightarrow> string \<Rightarrow> string \<Rightarrow> string" where
  "get_substitution matched bef aft [] = []"
| "get_substitution matched bef aft [c] = [c]"
| "get_substitution matched bef aft (c # d # t) =
     (if c = CHR 0x24 \<and> d = CHR 0x24 then CHR 0x24 # get_substitution matched bef aft t
      else if c = CHR 0x24 \<and> d = CHR 0x26 then matched @ get_substitution matched bef aft t
      else if c = CHR 0x24 \<and> d = CHR 0x60 then bef @ get_substitution matched bef aft t
      else if c = CHR 0x24 \<and> d = CHR 0x27 then aft @ get_substitution matched bef aft t
      else c # get_substitution matched bef aft (d # t))"

definition replace :: "string \<Rightarrow> string \<Rightarrow> string \<Rightarrow> string" where
  "replace s pat replacement =
     (case split_first pat s of
        None \<Rightarrow> s
      | Some (bef, aft) \<Rightarrow> bef @ get_substitution pat bef aft replacement @ aft)"

text \<open>
  The returned object. \<open>None\<close> in a field is \<^verbatim>\<open>undefined\<close>. Reading
  \<^verbatim>\<open>.replace\<close> of an unset \<^verbatim>\<open>PROVIDER_URL\<close> throws a TypeError.
\<close>

record connections =
  providerUrl :: "string option"
  privateKey :: "string option"
  etherscanUrl :: string
  explorerLinkPrefix :: string

definition loadConnections :: "environment \<Rightarrow> string \<Rightarrow> bool \<Rightarrow> bool \<Rightarrow> jserror + connections" where
  "loadConnections env network useFork useOvm =
     (case
        (if network = ''local'' \<or> useFork then Inr (Some ''http://127.0.0.1:8545'')
         else if useOvm then
           (if network = ''mainnet'' \<and> truthy_env (env ''OVM_PROVIDER_URL'')
            then Inr (env ''OVM_PROVIDER_URL'')
            else if truthy_env (env ''OVM_GOERLI_PROVIDER_URL'')
            then Inr (env ''OVM_GOERLI_PROVIDER_URL'')
            else Inr None)
         else
           (if network = ''mainnet'' \<and> truthy_env (env ''PROVIDER_URL_MAINNET'')
            then Inr (env ''PROVIDER_URL_MAINNET'')
            else case env ''PROVIDER_URL'' of
                   None \<Rightarrow> Inl (TypeError ''Cannot read properties of undefined (reading 'replace')'')
                 | Some url \<Rightarrow> Inr (Some (replace url ''network'' network))))
      of
        Inl e \<Rightarrow> Inl e
      | Inr url \<Rightarrow>
          Inr \<lparr> providerUrl = url,
                privateKey = (if network = ''mainnet'' then env ''DEPLOY_PRIVATE_KEY''
                              else env ''TESTNET_DEPLOY_PRIVATE_KEY''),
                etherscanUrl = ''https://api'' @ (if network \<noteq> ''mainnet'' then ''-'' @ network else []) @
                               (if useOvm then ''-optimistic'' else []) @ ''.etherscan.io/api'',
                explorerLinkPrefix = getExplorerLinkPrefix network useOvm \<rparr>)"

subsection \<open>Regular expressions\<close>

text \<open>
  The two regular expressions of the file use literals, character classes, sequence,
  alternative and \<^verbatim>\<open>+\<close>. \<^verbatim>\<open>RegExp.prototype.test\<close> (no flags) answers
  whether the pattern matches at some position of the string; the matcher decides this
  with derivatives.
\<close>

datatype regex =
    REmpty
  | RFail
  | RChar char
  | RClass "char \<Rightarrow> bool"
  | RSeq regex regex
  | RAlt regex regex
  | RPlus regex

fun nullable :: "regex \<Rightarrow> bool" where
  "nullable REmpty = True"
| "nullable RFail = False"
| "nullable (RChar c) = False"
| "nullable (RClass p) = False"
| "nullable (RSeq r s) = (nullable r \<and> nullable s)"
| "nullable (RAlt r s) = (nullable r \<or> nullable s)"
| "nullable (RPlus r) = nullable r"

fun deriv :: "char \<Rightarrow> regex \<Rightarrow> regex" where
  "deriv c REmpty = RFail"
| "deriv c RFail = RFail"
| "deriv c (RChar d) = (if c = d then REmpty else RFail)"
| "deriv c (RClass p) = (if p c then REmpty else RFail)"
| "deriv c (RSeq r s) =
     (if nullable r then RAlt (RSeq (deriv c r) s) (deriv c s) else RSeq (deriv c r) s)"
| "deriv c (RAlt r s) = RAlt (deriv c r) (deriv c s)"
| "deriv c (RPlus r) = RSeq (deriv c r) (RAlt REmpty (RPlus r))"

fun match_here :: "regex \<Rightarrow> string \<Rightarrow> bool" where
  "match_here r [] = nullable r"
| "match_here r (c # cs) = (nullable r \<or> match_here (deriv c r) cs)"

fun regex_test :: "regex \<Rightarrow> string \<Rightarrow> bool" where
  "regex_test r [] = nullable r"
| "regex_test r (c # cs) = (match_here r (c # cs) \<or> regex_test r cs)"

fun rlit :: "string \<Rightarrow> regex" where
  "rlit [] = REmpty"
| "rlit (c # cs) = RSeq (RChar c) (rlit cs)"

definition is_space :: "char \<Rightarrow> bool" where
  "is_space c = (c \<in> set [CHR 0x09, CHR 0x0A, CHR 0x0B, CHR 0x0C, CHR 0x0D, CHR 0x20, CHR 0xA0])"

definition is_word :: "char \<Rightarrow> bool" where
  "is_word c = (c \<in> set (''abcdefghijklmnopqrstuvwxyz'' @ ''ABCDEFGHIJKLMNOPQRSTUVWXYZ'' @
                          ''0123456789'' @ ''_''))"

text \<open>The language of a regular expression, to state what \<open>regex_test\<close> decides.\<close>

inductive_set plus_lang :: "string set \<Rightarrow> string set" for L where
  one: "w \<in> L \<Longrightarrow> w \<in> plus_lang L"
| more: "w \<in> L \<Longrightarrow> v \<in> plus_lang L \<Longrightarrow> w @ v \<in> plus_lang L"

fun lang :: "regex \<Rightarrow> string set" where
  "lang REmpty = {[]}"
| "lang RFail = {}"
| "lang (RChar c) = {[c]}"
| "lang (RClass p) = {[c] | c. p c}"
| "lang (RSeq r s) = {u @ v | u v. u \<in> lang r \<and> v \<in> lang s}"
| "lang (RAlt r s) = lang r \<union> lang s"
| "lang (RPlus r) = plus_lang (lang r)"

subsection \<open>confirmAction\<close>

text \<open>
  \<^verbatim>\<open>/y|Y/\<close>. The promise is settled by the callback of \<^verbatim>\<open>rl.question\<close> with the
  line the user entered: \<open>Inr ()\<close> is \<^verbatim>\<open>resolve()\<close>, \<open>Inl\<close> the rejection.
\<close>

definition confirm_re :: regex where
  "confirm_re = RAlt (RChar CHR ''y'') (RChar CHR ''Y'')"

definition confirmAction :: "string \<Rightarrow> string \<Rightarrow> jserror + unit" where
  "confirmAction prompt answer =
     (if regex_test confirm_re answer then Inr () else Inl (Error ''Not confirmed''))"

subsection \<open>catchMissingResolverWhenGeneratingSolidity\<close>

text \<open>
  \<^verbatim>\<open>/Missing address:\s[\w]+/\<close>. \<^verbatim>\<open>\s\<close> is white space and \<^verbatim>\<open>\w\<close> a letter,
  a digit or the underscore.
\<close>

definition missing_address_re :: regex where
  "missing_address_re = RSeq (rlit ''Missing address:'') (RSeq (RClass is_space) (RPlus (RClass is_word)))"

definition catchMissingResolverWhenGeneratingSolidity ::
    "string \<Rightarrow> bool \<Rightarrow> jserror \<Rightarrow> bool \<Rightarrow> jserror + unit" where
  "catchMissingResolverWhenGeneratingSolidity contract dryRun err generateSolidity =
     (if (generateSolidity \<or> dryRun) \<and> regex_test missing_address_re (message err)
      then Inr ()
      else Inl err)"

subsection \<open>assignGasOptions\<close>

text \<open>
  The values of a transaction's fields and of the two fee arguments. Numbers are integers
  here; a BigNumber is an object, so it is truthy whatever its value.
\<close>

datatype jsval = Undefined | Null | Boolean bool | Number int | String string | BigNumber int

fun truthy :: "jsval \<Rightarrow> bool" where
  "truthy Undefined = False"
| "truthy Null = False"
| "truthy (Boolean b) = b"
| "truthy (Number n) = (n \<noteq> 0)"
| "truthy (String s) = (s \<noteq> [])"
| "truthy (BigNumber n) = True"

fun toString :: "jsval \<Rightarrow> jserror + string" where
  "toString Undefined = Inl (TypeError ''Cannot read properties of undefined (reading 'toString')'')"
| "toString Null = Inl (TypeError ''Cannot read properties of null (reading 'toString')'')"
| "toString (Boolean b) = Inr (if b then ''true'' else ''false'')"
| "toString (Number n) = Inr (int_to_dec n)"
| "toString (String s) = Inr s"
| "toString (BigNumber n) = Inr (int_to_dec n)"

type_synonym jsobject = "string \<rightharpoonup> jsval"

definition get_prop :: "jsobject \<Rightarrow> string \<Rightarrow> jsval" where
  "get_prop obj k = (case obj k of None \<Rightarrow> Undefined | Some v \<Rightarrow> v)"

definition object_assign :: "jsobject \<Rightarrow> jsobject \<Rightarrow> jsobject" where
  "object_assign target source = target ++ source"

text \<open>
  \<^verbatim>\<open>parseUnits\<close> of ethers is an argument; it throws on a string that is not a
  decimal number. \<open>getFeeData\<close> is what awaiting \<^verbatim>\<open>provider.getFeeData()\<close> gave:
  an exception, which the \<^verbatim>\<open>try\<close> swallows, or the fee data object.
\<close>

definition assignGasOptions ::
    "(string \<Rightarrow> string \<Rightarrow> jserror + int) \<Rightarrow> (jserror + jsobject) \<Rightarrow>
     jsobject \<Rightarrow> jsval \<Rightarrow> jsval \<Rightarrow> jserror + jsobject" where
  "assignGasOptions parseUnits getFeeData tx maxFeePerGas maxPriorityFeePerGas =
     (let gasOptions = Map.empty;
          feeData = (case getFeeData of Inl _ \<Rightarrow> Map.empty | Inr fd \<Rightarrow> fd)
      in
      if truthy (get_prop feeData ''maxFeePerGas'') then
        (let gasOptions = gasOptions(''type'' \<mapsto> Number 2) in
         case (if truthy maxFeePerGas then
                 (case toString maxFeePerGas of
                    Inl e \<Rightarrow> Inl e
                  | Inr s \<Rightarrow>
                      (case parseUnits (if s \<noteq> [] then s else ''100'') ''gwei'' of
                         Inl e \<Rightarrow> Inl e
                       | Inr wei \<Rightarrow> Inr (gasOptions(''maxFeePerGas'' \<mapsto> BigNumber wei))))
               else Inr gasOptions) of
           Inl e \<Rightarrow> Inl e
         | Inr gasOptions \<Rightarrow>
             (case (if truthy maxPriorityFeePerGas then
                      (case toString maxPriorityFeePerGas of
                         Inl e \<Rightarrow> Inl e
                       | Inr s \<Rightarrow>
                           (case parseUnits s ''gwei'' of
                              Inl e \<Rightarrow> Inl e
                            | Inr wei \<Rightarrow>
                                Inr (gasOptions(''maxPriorityFeePerGas'' \<mapsto> BigNumber wei))))
                    else Inr gasOptions) of
                Inl e \<Rightarrow> Inl e
              | Inr gasOptions \<Rightarrow> Inr (object_assign gasOptions tx)))
      else Inr (object_assign gasOptions tx))"

section \<open>Notions of the statements\<close>

subsection \<open>The owner-action ledger after a round trip\<close>

text \<open>
  \<open>rendered bn v\<close> is \<open>v\<close> with every value of the BigNumber shape, taken from the
  outside in, replaced by the string that the conversion \<open>bn\<close> returns for it;
  \<open>convertible bn v\<close> says that the conversion returns for each of them.
\<close>

fun rendered :: "(json \<Rightarrow> jserror + string) \<Rightarrow> json \<Rightarrow> json"
  and rendered_elements :: "(json \<Rightarrow> jserror + string) \<Rightarrow> json list \<Rightarrow> json list"
  and rendered_members ::
    "(json \<Rightarrow> jserror + string) \<Rightarrow> (string \<times> json) list \<Rightarrow> (string \<times> json) list"
where
  "rendered bn JNull = JNull"
| "rendered bn (JBool b) = JBool b"
| "rendered bn (JNum n) = JNum n"
| "rendered bn (JStr s) = JStr s"
| "rendered bn (JArr xs) = JArr (rendered_elements bn xs)"
| "rendered bn (JObj kvs) =
     (if BigNumber_shaped (JObj kvs)
      then (case bn (JObj kvs) of Inl e \<Rightarrow> JObj kvs | Inr s \<Rightarrow> JStr s)
      else JObj (rendered_members bn kvs))"
| "rendered_elements bn [] = []"
| "rendered_elements bn (x # xs) = rendered bn x # rendered_elements bn xs"
| "rendered_members bn [] = []"
| "rendered_members bn ((k, x) # kvs) = (k, rendered bn x) # rendered_members bn kvs"


text \<open>
  \<open>json_ok v\<close>: every number of \<open>v\<close> is in the exact range and no object of \<open>v\<close> has a
  key twice, as holds of the values of the source.
\<close>

fun json_ok :: "json \<Rightarrow> bool"
  and json_ok_elements :: "json list \<Rightarrow> bool"
  and json_ok_members :: "(string \<times> json) list \<Rightarrow> bool"
where
  "json_ok JNull = True"
| "json_ok (JBool b) = True"
| "json_ok (JNum n) = (\<bar>n\<bar> \<le> 2 ^ 53 - 1)"
| "json_ok (JStr s) = True"
| "json_ok (JArr xs) = json_ok_elements xs"
| "json_ok (JObj kvs) = (distinct (map fst kvs) \<and> json_ok_members kvs)"
| "json_ok_elements [] = True"
| "json_ok_elements (x # xs) = (json_ok x \<and> json_ok_elements xs)"
| "json_ok_members [] = True"
| "json_ok_members ((k, x) # kvs) = (json_ok x \<and> json_ok_members kvs)"

text \<open>Bounds for the counter of the parser and for the characters around a value.\<close>

fun weight :: "json \<Rightarrow> nat"
  and weight_elements :: "json list \<Rightarrow> nat"
  and weight_members :: "(string \<times> json) list \<Rightarrow> nat"
where
  "weight JNull = 1"
| "weight (JBool b) = 1"
| "weight (JNum n) = 1"
| "weight (JStr s) = 1"
| "weight (JArr xs) = Suc (weight_elements xs)"
| "weight (JObj kvs) = Suc (weight_members kvs)"
| "weight_elements [] = 0"
| "weight_elements (x # xs) = Suc (weight x + weight_elements xs)"
| "weight_members [] = 0"
| "weight_members ((k, x) # kvs) = Suc (weight x + weight_members kvs)"

definition number_end :: "string \<Rightarrow> bool" where
  "number_end rest =
     (case rest of
        [] \<Rightarrow> True
      | c # _ \<Rightarrow> \<not> is_digit c \<and> c \<noteq> CHR ''.'' \<and> c \<noteq> CHR ''e'' \<and> c \<noteq> CHR ''E'')"

definition start_char :: "char \<Rightarrow> bool" where
  "start_char c =
     (c = CHR ''{'' \<or> c = CHR ''['' \<or> c = DQ \<or> c = CHR ''t'' \<or> c = CHR ''f'' \<or> c = CHR ''n'' \<or>
      c = CHR ''-'' \<or> is_digit c)"

subsection \<open>The deployment directory\<close>

text \<open>
  \<open>returns\<close> holds of a result that is a value and not an error.
  \<open>required_inputs_load\<close> says that the required inputs of a deployment directory are
  there and load: the five loaders return (\<^verbatim>\<open>getVersions\<close> is called for a network
  other than \<open>''local''\<close> only) and the configuration, parameter and futures-markets
  files exist and parse. \<open>loads_if_present fs file object_needed\<close> says that the file,
  if it exists, parses, to an object when \<open>object_needed\<close>.
\<close>

definition returns :: "jserror + 'a \<Rightarrow> bool" where
  "returns result = (case result of Inl err \<Rightarrow> False | Inr v \<Rightarrow> True)"

definition is_object :: "json \<Rightarrow> bool" where
  "is_object v = (case v of JObj kvs \<Rightarrow> True | _ \<Rightarrow> False)"

definition required_inputs_load :: "deps \<Rightarrow> filesystem \<Rightarrow> string \<Rightarrow> string \<Rightarrow> bool" where
  "required_inputs_load d fs deploymentPath network =
     (returns (getSynths d fs network deploymentPath) \<and>
      returns (getStakingRewards d fs network deploymentPath) \<and>
      returns (getShortingRewards d fs network deploymentPath) \<and>
      returns (read_json fs (path_join d deploymentPath (CONFIG_FILENAME d))) \<and>
      returns (read_json fs (path_join d deploymentPath (PARAMS_FILENAME d))) \<and>
      returns (read_json fs (path_join d deploymentPath (FUTURES_MARKETS_FILENAME d))) \<and>
      returns (if network \<noteq> ''local'' then getVersions d fs network deploymentPath
               else Inr (JObj [])) \<and>
      returns (getFeeds d fs network deploymentPath))"

definition loads_if_present :: "filesystem \<Rightarrow> string \<Rightarrow> bool \<Rightarrow> bool" where
  "loads_if_present fs file object_needed =
     (case fs file of
        None \<Rightarrow> True
      | Some text \<Rightarrow>
          (case JSON_parse text of
             Inl err \<Rightarrow> False
           | Inr v \<Rightarrow> if object_needed then is_object v else True))"

text \<open>
  \<open>loader_throws\<close> says that one of the loaders the call uses throws
  (\<^verbatim>\<open>getVersions\<close> is not called for the network \<open>''local''\<close>).
\<close>

definition loader_throws :: "deps \<Rightarrow> filesystem \<Rightarrow> string \<Rightarrow> string \<Rightarrow> bool" where
  "loader_throws d fs deploymentPath network =
     (\<not> returns (getSynths d fs network deploymentPath) \<or>
      \<not> returns (getStakingRewards d fs network deploymentPath) \<or>
      \<not> returns (getShortingRewards d fs network deploymentPath) \<or>
      (network \<noteq> ''local'' \<and> \<not> returns (getVersions d fs network deploymentPath)) \<or>
      \<not> returns (getFeeds d fs network deploymentPath))"

text \<open>The default deployment record and the text \<open>stringify\<close> writes for it.\<close>

definition default_deployment :: json where
  "default_deployment = JObj [(''targets'', JObj []), (''sources'', JObj [])]"

definition default_deployment_text :: string where
  "default_deployment_text =
     ''{'' @ [LF, TAB, DQ] @ ''targets'' @ [DQ] @ '': {},'' @
     [LF, TAB, DQ] @ ''sources'' @ [DQ] @ '': {}'' @ [LF] @ ''}'' @ [LF]"

subsection \<open>The fuel of the parser\<close>

text \<open>
  The parser of the model counts its recursive calls down from a number fixed by
  \<open>JSON_parse\<close>; the parser of the engine has no such count. The error below is the one
  the model gives when the count reaches zero.
\<close>

definition out_of_fuel :: "jserror + 'a \<Rightarrow> bool" where
  "out_of_fuel result = (result = Inl (Unmodelled ''out of fuel''))"

subsection \<open>Sample inputs\<close>

text \<open>
  A deployment directory \<open>''d''\<close> with its eight input files; loaders that read their
  file and parse it; paths joined with a slash.
\<close>

definition example_deps :: deps where
  "example_deps =
     \<lparr> CONFIG_FILENAME = ''config.json'',
       PARAMS_FILENAME = ''params.json'',
       DEPLOYMENT_FILENAME = ''deployment.json'',
       OWNER_ACTIONS_FILENAME = ''owner-actions.json'',
       SYNTHS_FILENAME = ''synths.json'',
       STAKING_REWARDS_FILENAME = ''rewards.json'',
       SHORTING_REWARDS_FILENAME = ''shorting-rewards.json'',
       VERSIONS_FILENAME = ''versions.json'',
       FEEDS_FILENAME = ''feeds.json'',
       FUTURES_MARKETS_FILENAME = ''futures-markets.json'',
       path_join = (\<lambda>dir file. dir @ ''/'' @ file),
       getSynths = (\<lambda>fs network dir. read_json fs (dir @ ''/synths.json'')),
       getStakingRewards = (\<lambda>fs network dir. read_json fs (dir @ ''/rewards.json'')),
       getShortingRewards = (\<lambda>fs network dir. read_json fs (dir @ ''/shorting-rewards.json'')),
       getVersions = (\<lambda>fs network dir. read_json fs (dir @ ''/versions.json'')),
       getFeeds = (\<lambda>fs network dir. read_json fs (dir @ ''/feeds.json'')),
       BigNumber_from_toString = (\<lambda>v. Inl (Error ''invalid BigNumber value'')) \<rparr>"

definition example_fs :: filesystem where
  "example_fs =
     [''d/config.json'' \<mapsto> ''{}'',
      ''d/params.json'' \<mapsto> ''[]'',
      ''d/synths.json'' \<mapsto> ''[]'',
      ''d/rewards.json'' \<mapsto> ''[]'',
      ''d/shorting-rewards.json'' \<mapsto> ''[]'',
      ''d/versions.json'' \<mapsto> ''{}'',
      ''d/feeds.json'' \<mapsto> ''{}'',
      ''d/futures-markets.json'' \<mapsto> ''[]'']"

text \<open>The same directory with a deployment record of content \<^verbatim>\<open>null\<close>, and with a
  deployment record that holds a target.\<close>

definition null_deployment_fs :: filesystem where
  "null_deployment_fs = example_fs(''d/deployment.json'' \<mapsto> ''null'')"

definition filled_deployment_fs :: filesystem where
  "filled_deployment_fs =
     example_fs(''d/deployment.json'' \<mapsto>
       ''{'' @ [DQ] @ ''targets'' @ [DQ] @ '':{'' @ [DQ] @ ''Issuer'' @ [DQ] @ '':1},'' @
       [DQ] @ ''network'' @ [DQ] @ '':5}'')"

text \<open>
  A package index whose staking-rewards loader gives the empty list when its file is
  missing, and the sample directory without that file.
\<close>

definition lenient_deps :: deps where
  "lenient_deps =
     example_deps \<lparr> getStakingRewards :=
       (\<lambda>fs network dir.
          if existsSync fs (dir @ ''/rewards.json'') then read_json fs (dir @ ''/rewards.json'')
          else Inr (JArr [])) \<rparr>"

definition no_rewards_fs :: filesystem where
  "no_rewards_fs = example_fs(''d/rewards.json'' := None)"





section \<open>Properties\<close>

subsection \<open>Strings and numbers survive the round trip\<close>

lemma hex_val_hex_digit: "d < 16 \<Longrightarrow> hex_val (hex_digit d) = Some d"
proof -
  assume "d < 16"
  then have "d \<in> {0, 1, 2, 3, 4, 5, 6, 7, 8, 9, 10, 11, 12, 13, 14, 15}" by (simp; arith)
  then show ?thesis
    by (auto simp: hex_val_def hex_digit_def)
qed

lemma unicode_escape_control:
  assumes "(of_char c :: nat) < 32"
  shows "unicode_escape CHR ''0'' CHR ''0'' (hex_digit (of_char c div 16)) (hex_digit (of_char c mod 16))
           = Inr c"
proof -
  have a: "hex_val (hex_digit (of_char c div 16)) = Some (of_char c div 16)"
    using assms by (intro hex_val_hex_digit) simp
  have b: "hex_val (hex_digit (of_char c mod 16)) = Some (of_char c mod 16)"
    by (intro hex_val_hex_digit) simp
  have z: "hex_val CHR ''0'' = Some 0" by (simp add: hex_val_def)
  show ?thesis
    using assms by (simp add: unicode_escape_def a b z)
qed

lemma parse_chars_quote_char:
  "parse_chars (quote_char c @ rest) =
     (case parse_chars rest of Inl err \<Rightarrow> Inl err | Inr (s, r) \<Rightarrow> Inr (c # s, r))"
proof (cases "(of_char c :: nat) < 32")
  case True
  note ctl = True
  show ?thesis
  proof (cases "c = CHR 0x08 \<or> c = TAB \<or> c = LF \<or> c = CHR 0x0C \<or> c = CHR 0x0D")
    case True
    then show ?thesis
      by (auto simp: quote_char_def unescape_def)
  next
    case False
    have "c \<noteq> DQ" "c \<noteq> BSL" using ctl by auto
    with False ctl show ?thesis
      by (simp add: quote_char_def unicode_escape_control)
  qed
next
  case False
  then have "c \<noteq> CHR 0x08" "c \<noteq> TAB" "c \<noteq> LF" "c \<noteq> CHR 0x0C" "c \<noteq> CHR 0x0D"
    by auto
  with False show ?thesis
    by (auto simp: quote_char_def unescape_def)
qed

lemma parse_chars_quoted:
  "parse_chars (concat (map quote_char s) @ DQ # rest) = Inr (s, rest)"
  by (induction s) (simp_all add: parse_chars_quote_char)

lemma QuoteJSONString_parse:
  "\<exists>body. QuoteJSONString s @ rest = DQ # body \<and> parse_chars body = Inr (s, rest)"
  by (simp add: QuoteJSONString_def parse_chars_quoted)

lemma of_char_digit: "d < 10 \<Longrightarrow> (of_char (char_of (48 + d :: nat)) :: nat) = 48 + d"
  by simp

lemma is_digit_char_of: "d < 10 \<Longrightarrow> is_digit (char_of (48 + d :: nat))"
  by (simp add: is_digit_def)

lemma digit_val_char_of: "d < 10 \<Longrightarrow> digit_val (char_of (48 + d :: nat)) = d"
  by (simp add: digit_val_def)

lemma char_of_digit_zero: "d < 10 \<Longrightarrow> char_of (48 + d :: nat) = CHR ''0'' \<Longrightarrow> d = 0"
proof -
  assume d: "d < 10" and "char_of (48 + d :: nat) = CHR ''0''"
  then have "(of_char (char_of (48 + d :: nat)) :: nat) = of_char CHR ''0''" by simp
  with d show "d = 0" by (simp only: of_char_digit) simp
qed

lemma nat_to_dec_digits: "list_all is_digit (nat_to_dec n)"
proof (induction n rule: nat_to_dec.induct)
  case (1 n)
  show ?case
  proof (cases "n < 10")
    case True
    then show ?thesis by (simp add: nat_to_dec.simps [of n] is_digit_char_of)
  next
    case False
    with 1 show ?thesis
      by (simp add: nat_to_dec.simps [of n] is_digit_char_of)
  qed
qed

lemma nat_to_dec_nonempty: "nat_to_dec n \<noteq> []"
  by (simp add: nat_to_dec.simps [of n])

lemma dec_to_nat_snoc: "dec_to_nat (ds @ [c]) = 10 * dec_to_nat ds + digit_val c"
  by (simp add: dec_to_nat_def)

lemma dec_to_nat_nat_to_dec: "dec_to_nat (nat_to_dec n) = n"
proof (induction n rule: nat_to_dec.induct)
  case (1 n)
  show ?case
  proof (cases "n < 10")
    case True
    then show ?thesis
      by (simp add: nat_to_dec.simps [of n] dec_to_nat_def digit_val_char_of)
  next
    case False
    with 1 have "dec_to_nat (nat_to_dec (n div 10)) = n div 10" by simp
    with False show ?thesis
      by (simp add: nat_to_dec.simps [of n] dec_to_nat_snoc digit_val_char_of)
  qed
qed

lemma nat_to_dec_leading:
  "\<exists>c cs. nat_to_dec n = c # cs \<and> is_digit c \<and> (c = CHR ''0'' \<longrightarrow> n = 0 \<and> cs = [])"
proof (induction n rule: nat_to_dec.induct)
  case (1 n)
  show ?case
  proof (cases "n < 10")
    case True
    then show ?thesis
      using char_of_digit_zero [of n]
      by (auto simp: nat_to_dec.simps [of n] is_digit_char_of)
  next
    case False
    with 1 obtain c cs where h: "nat_to_dec (n div 10) = c # cs" "is_digit c"
      "c = CHR ''0'' \<longrightarrow> n div 10 = 0 \<and> cs = []" by blast
    from False have "n div 10 \<noteq> 0" by simp
    with h have "c \<noteq> CHR ''0''" by blast
    with h False show ?thesis
      by (simp add: nat_to_dec.simps [of n])
  qed
qed

lemma takeWhile_digits:
  "list_all is_digit ds \<Longrightarrow> number_end rest \<Longrightarrow> takeWhile is_digit (ds @ rest) = ds"
  by (induction ds) (auto simp: number_end_def split: list.splits)

lemma parse_unsigned_nat:
  assumes "number_end rest" and "n \<le> 2 ^ 53 - 1"
  shows "parse_unsigned (nat_to_dec n @ rest) = Inr (n, rest)"
proof -
  obtain c cs where h: "nat_to_dec n = c # cs" "is_digit c"
    "c = CHR ''0'' \<longrightarrow> n = 0 \<and> cs = []"
    using nat_to_dec_leading by blast
  have tw: "takeWhile is_digit (c # cs @ rest) = c # cs"
    using takeWhile_digits [OF nat_to_dec_digits assms(1), of n] h(1) by simp
  have ne: "\<not> (case rest of [] \<Rightarrow> False | c # _ \<Rightarrow> c = CHR ''.'' \<or> c = CHR ''e'' \<or> c = CHR ''E'')"
    using assms(1) by (auto simp: number_end_def split: list.splits)
  have le: "\<not> 2 ^ 53 - 1 < n" using assms(2) by simp
  have dn: "dec_to_nat (c # cs) = n" using dec_to_nat_nat_to_dec [of n] h(1) by simp
  have ds: "integer_part (c # cs @ rest) = c # cs"
  proof (cases "c = CHR ''0''")
    case True
    with h(3) show ?thesis by (simp add: integer_part_def)
  next
    case False
    then show ?thesis unfolding integer_part_def using tw by simp
  qed
  have "parse_unsigned (c # cs @ rest) = Inr (n, rest)"
    unfolding parse_unsigned_def Let_def ds
    using ne le dn by simp
  then show ?thesis using h(1) by simp
qed

lemma parse_number_int:
  assumes "number_end rest" and "\<bar>i\<bar> \<le> 2 ^ 53 - 1"
  shows "parse_number (int_to_dec i @ rest) = Inr (i, rest)"
proof (cases "i < 0")
  case False
  then have le: "nat i \<le> 2 ^ 53 - 1" using assms(2) by simp
  obtain c cs where h: "nat_to_dec (nat i) = c # cs" "is_digit c"
    using nat_to_dec_leading by blast
  have nm: "c \<noteq> CHR ''-''" using h(2) by (auto simp: is_digit_def)
  have "parse_number (c # cs @ rest) = Inr (int (nat i), rest)"
    using parse_unsigned_nat [OF assms(1) le] h(1) nm by (simp add: parse_number_def)
  then show ?thesis using False h(1) by (simp add: int_to_dec_def)
next
  case True
  define n where "n = nat (- i)"
  have n: "n \<le> 2 ^ 53 - 1" "i = - int n" using True assms(2) by (simp_all add: n_def)
  have "parse_number (CHR ''-'' # nat_to_dec n @ rest) = Inr (- int n, rest)"
    using parse_unsigned_nat [OF assms(1) n(1)] by (simp add: parse_number_def)
  moreover have "int_to_dec i = CHR ''-'' # nat_to_dec n"
    using True by (simp add: int_to_dec_def n_def)
  ultimately show ?thesis
    using n(2) by simp
qed

lemma int_to_dec_start:
  "\<exists>c cs. int_to_dec i = c # cs \<and> (c = CHR ''-'' \<or> is_digit c)"
  using nat_to_dec_leading [of "nat i"] nat_to_dec_leading [of "nat (- i)"]
  by (auto simp: int_to_dec_def)

subsection \<open>The serializer, equation by equation\<close>

lemmas ser_simps = SerializeJSONProperty.simps

declare SerializeJSONProperty.simps [simp del]

lemma not_shaped_simps [simp]:
  "\<not> BigNumber_shaped JNull" "\<not> BigNumber_shaped (JBool b)" "\<not> BigNumber_shaped (JNum n)"
  "\<not> BigNumber_shaped (JStr s)" "\<not> BigNumber_shaped (JArr xs)"
  by (simp_all add: BigNumber_shaped_def typeof_object_def isArray_def)

lemma ser_JNull [simp]: "SerializeJSONProperty bn ind key JNull = Inr ''null''"
  by (simp add: ser_simps JSONreplacer_def)

lemma ser_JBool [simp]:
  "SerializeJSONProperty bn ind key (JBool b) = Inr (if b then ''true'' else ''false'')"
  by (simp add: ser_simps JSONreplacer_def)

lemma ser_JNum [simp]: "SerializeJSONProperty bn ind key (JNum n) = Inr (int_to_dec n)"
  by (simp add: ser_simps JSONreplacer_def)

lemma ser_JStr [simp]: "SerializeJSONProperty bn ind key (JStr s) = Inr (QuoteJSONString s)"
  by (simp add: ser_simps JSONreplacer_def)

lemma ser_JArr:
  "SerializeJSONProperty bn ind key (JArr xs) =
     (case SerializeJSONArrayElements bn (ind @ [TAB]) 0 xs of
        Inl e \<Rightarrow> Inl e
      | Inr partial \<Rightarrow>
          Inr (if partial = [] then ''[]''
               else ''['' @ [LF] @ (ind @ [TAB]) @
                    join ('','' @ [LF] @ (ind @ [TAB])) partial @ [LF] @ ind @ '']''))"
  by (simp add: ser_simps JSONreplacer_def)

lemma ser_JObj:
  "SerializeJSONProperty bn ind key (JObj kvs) =
     (if BigNumber_shaped (JObj kvs)
      then (case bn (JObj kvs) of Inl e \<Rightarrow> Inl e | Inr s \<Rightarrow> Inr (QuoteJSONString s))
      else (case SerializeJSONObjectMembers bn (ind @ [TAB]) kvs of
              Inl e \<Rightarrow> Inl e
            | Inr partial \<Rightarrow>
                Inr (if partial = [] then ''{}''
                     else ''{'' @ [LF] @ (ind @ [TAB]) @
                          join ('','' @ [LF] @ (ind @ [TAB])) partial @ [LF] @ ind @ ''}'')))"
  by (simp add: ser_simps JSONreplacer_def split: sum.splits)

lemma ser_elements_Cons:
  "SerializeJSONArrayElements bn ind i (x # xs) = Inr partial \<longleftrightarrow>
     (\<exists>p ps. SerializeJSONProperty bn ind (nat_to_dec i) x = Inr p \<and>
             SerializeJSONArrayElements bn ind (Suc i) xs = Inr ps \<and> partial = p # ps)"
  by (auto split: sum.splits)

lemma ser_members_Cons:
  "SerializeJSONObjectMembers bn ind ((k, x) # kvs) = Inr partial \<longleftrightarrow>
     (\<exists>p ps. SerializeJSONProperty bn ind k x = Inr p \<and>
             SerializeJSONObjectMembers bn ind kvs = Inr ps \<and>
             partial = (QuoteJSONString k @ '': '' @ p) # ps)"
  by (auto split: sum.splits)

lemma ser_elements_length:
  "SerializeJSONArrayElements bn ind i xs = Inr partial \<Longrightarrow> length partial = length xs"
  by (induction xs arbitrary: i partial) (auto split: sum.splits)

lemma ser_members_length:
  "SerializeJSONObjectMembers bn ind kvs = Inr partial \<Longrightarrow> length partial = length kvs"
  by (induction kvs arbitrary: partial) (auto split: sum.splits)

lemma join_Cons: "join sep (p # ps) = (if ps = [] then p else p @ sep @ join sep ps)"
  by (cases ps) simp_all

subsection \<open>The parser on what the serializer writes\<close>

lemma skip_ws_append: "list_all is_ws pre \<Longrightarrow> skip_ws (pre @ s) = skip_ws s"
  by (induction pre) (simp_all add: skip_ws_def)

lemma skip_ws_Cons: "\<not> is_ws c \<Longrightarrow> skip_ws (c # s) = c # s"
  by (simp add: skip_ws_def)

lemma skip_ws_Nil [simp]: "skip_ws [] = []"
  by (simp add: skip_ws_def)

lemma is_ws_simps [simp]: "is_ws LF" "is_ws TAB" "is_ws CHR '' ''"
  by (simp_all add: is_ws_def)

lemma start_char_not_ws: "start_char c \<Longrightarrow> \<not> is_ws c"
  by (auto simp: start_char_def is_ws_def is_digit_def)

lemma start_char_not_close: "start_char c \<Longrightarrow> c \<noteq> CHR '']'' \<and> c \<noteq> CHR ''}''"
  by (auto simp: start_char_def is_digit_def)

lemma ser_start:
  "SerializeJSONProperty bn ind key v = Inr out \<Longrightarrow> \<exists>c cs. out = c # cs \<and> start_char c"
proof (cases v)
  case (JNum n)
  assume "SerializeJSONProperty bn ind key v = Inr out"
  with JNum int_to_dec_start [of n] show ?thesis by (auto simp: start_char_def)
next
  case (JArr xs)
  assume "SerializeJSONProperty bn ind key v = Inr out"
  with JArr show ?thesis
    by (auto simp: ser_JArr start_char_def split: sum.splits if_splits)
next
  case (JObj kvs)
  assume "SerializeJSONProperty bn ind key v = Inr out"
  with JObj show ?thesis
    by (auto simp: ser_JObj start_char_def QuoteJSONString_def split: sum.splits if_splits)
qed (auto simp: start_char_def QuoteJSONString_def split: if_splits)

lemmas parse_simps = parse_value.simps parse_elements.simps parse_members.simps

declare parse_value.simps [simp del] parse_elements.simps [simp del] parse_members.simps [simp del]

lemma parse_value_start:
  assumes "list_all is_ws pre" and "start_char c"
  shows "skip_ws (pre @ c # s) = c # s"
  using assms by (simp add: skip_ws_append skip_ws_Cons start_char_not_ws)

lemma parse_value_string:
  assumes "list_all is_ws pre"
  shows "parse_value (Suc n) (pre @ QuoteJSONString s @ rest) = Inr (JStr s, rest)"
proof -
  have "skip_ws (pre @ QuoteJSONString s @ rest) = DQ # concat (map quote_char s) @ DQ # rest"
    using parse_value_start [OF assms, of DQ] by (simp add: QuoteJSONString_def start_char_def)
  then show ?thesis by (simp add: parse_simps parse_chars_quoted)
qed

lemma parse_value_number:
  assumes "list_all is_ws pre" and "number_end rest" and "\<bar>i\<bar> \<le> 2 ^ 53 - 1"
  shows "parse_value (Suc n) (pre @ int_to_dec i @ rest) = Inr (JNum i, rest)"
proof -
  obtain c cs where h: "int_to_dec i = c # cs" "c = CHR ''-'' \<or> is_digit c"
    using int_to_dec_start by blast
  then have sc: "start_char c" by (auto simp: start_char_def)
  have sk: "skip_ws (pre @ int_to_dec i @ rest) = c # cs @ rest"
    using parse_value_start [OF assms(1) sc] h(1) by simp
  have nb: "c \<noteq> CHR ''{''" "c \<noteq> CHR ''[''" "c \<noteq> DQ" "c \<noteq> CHR ''t''" "c \<noteq> CHR ''f''"
    "c \<noteq> CHR ''n''"
    using h(2) by (auto simp: is_digit_def)
  have "parse_number (c # cs @ rest) = Inr (i, rest)"
    using parse_number_int [OF assms(2,3)] h(1) by simp
  then show ?thesis using sk nb h(2) by (simp add: parse_simps)
qed

lemma parse_value_literals:
  assumes "list_all is_ws pre"
  shows "parse_value (Suc n) (pre @ ''null'' @ rest) = Inr (JNull, rest)"
    and "parse_value (Suc n) (pre @ ''true'' @ rest) = Inr (JBool True, rest)"
    and "parse_value (Suc n) (pre @ ''false'' @ rest) = Inr (JBool False, rest)"
proof -
  have "skip_ws (pre @ ''null'' @ rest) = ''null'' @ rest"
    using parse_value_start [OF assms, of "CHR ''n''"] by (simp add: start_char_def)
  then show "parse_value (Suc n) (pre @ ''null'' @ rest) = Inr (JNull, rest)"
    by (simp add: parse_simps parse_literal_def)
  have "skip_ws (pre @ ''true'' @ rest) = ''true'' @ rest"
    using parse_value_start [OF assms, of "CHR ''t''"] by (simp add: start_char_def)
  then show "parse_value (Suc n) (pre @ ''true'' @ rest) = Inr (JBool True, rest)"
    by (simp add: parse_simps parse_literal_def)
  have "skip_ws (pre @ ''false'' @ rest) = ''false'' @ rest"
    using parse_value_start [OF assms, of "CHR ''f''"] by (simp add: start_char_def)
  then show "parse_value (Suc n) (pre @ ''false'' @ rest) = Inr (JBool False, rest)"
    by (simp add: parse_simps parse_literal_def)
qed

lemma parse_value_empty:
  assumes "list_all is_ws pre"
  shows "parse_value (Suc n) (pre @ ''[]'' @ rest) = Inr (JArr [], rest)"
    and "parse_value (Suc n) (pre @ ''{}'' @ rest) = Inr (JObj [], rest)"
proof -
  have "skip_ws (pre @ ''[]'' @ rest) = ''[]'' @ rest"
    using parse_value_start [OF assms, of "CHR ''[''"] by (simp add: start_char_def)
  then show "parse_value (Suc n) (pre @ ''[]'' @ rest) = Inr (JArr [], rest)"
    by (simp add: parse_simps skip_ws_Cons is_ws_def)
  have "skip_ws (pre @ ''{}'' @ rest) = ''{}'' @ rest"
    using parse_value_start [OF assms, of "CHR ''{''"] by (simp add: start_char_def)
  then show "parse_value (Suc n) (pre @ ''{}'' @ rest) = Inr (JObj [], rest)"
    by (simp add: parse_simps skip_ws_Cons is_ws_def)
qed

lemma parse_value_array:
  assumes "list_all is_ws pre" and "list_all is_ws gap" and "start_char d"
  shows "parse_value (Suc n) (pre @ ''['' @ gap @ d # body) =
           (case parse_elements n [] (d # body) of
              Inl err \<Rightarrow> Inl err
            | Inr (xs, rest) \<Rightarrow> Inr (JArr xs, rest))"
proof -
  have a: "skip_ws (pre @ ''['' @ gap @ d # body) = CHR ''['' # gap @ d # body"
    using parse_value_start [OF assms(1), of "CHR ''[''"] by (simp add: start_char_def)
  have b: "skip_ws (gap @ d # body) = d # body"
    using parse_value_start [OF assms(2,3)] .
  show ?thesis
    using a b start_char_not_close [OF assms(3)] by (simp add: parse_simps)
qed

lemma parse_value_object:
  assumes "list_all is_ws pre" and "list_all is_ws gap"
  shows "parse_value (Suc n) (pre @ ''{'' @ gap @ DQ # body) =
           (case parse_members n [] (DQ # body) of
              Inl err \<Rightarrow> Inl err
            | Inr (kvs, rest) \<Rightarrow> Inr (JObj kvs, rest))"
proof -
  have sc: "start_char DQ" by (simp add: start_char_def)
  have a: "skip_ws (pre @ ''{'' @ gap @ DQ # body) = CHR ''{'' # gap @ DQ # body"
    using parse_value_start [OF assms(1), of "CHR ''{''"] by (simp add: start_char_def)
  have b: "skip_ws (gap @ DQ # body) = DQ # body"
    using parse_value_start [OF assms(2) sc] .
  show ?thesis
    using a b by (simp add: parse_simps)
qed

lemma update_fresh: "k \<notin> fst ` set acc \<Longrightarrow> AList.update k v acc = acc @ [(k, v)]"
  by (induction acc) auto

lemma rendered_members_keys [simp]: "map fst (rendered_members bn kvs) = map fst kvs"
  by (induction kvs) auto

lemma number_end_simps [simp]: "number_end (LF # s)" "number_end (CHR '','' # s)" "number_end []"
  by (simp_all add: number_end_def is_digit_def)

lemma roundtrip:
  shows "\<And>ind key out fuel pre rest.
          SerializeJSONProperty bn ind key v = Inr out \<Longrightarrow> json_ok v \<Longrightarrow>
          list_all is_ws ind \<Longrightarrow> list_all is_ws pre \<Longrightarrow> number_end rest \<Longrightarrow>
          weight (rendered bn v) \<le> fuel \<Longrightarrow>
          parse_value fuel (pre @ out @ rest) = Inr (rendered bn v, rest)"
    and "\<And>ind i partial fuel pre acc rest stepback.
          SerializeJSONArrayElements bn ind i xs = Inr partial \<Longrightarrow> xs \<noteq> [] \<Longrightarrow>
          json_ok_elements xs \<Longrightarrow>
          list_all is_ws ind \<Longrightarrow> list_all is_ws pre \<Longrightarrow> list_all is_ws stepback \<Longrightarrow>
          weight_elements (rendered_elements bn xs) \<le> fuel \<Longrightarrow>
          parse_elements fuel acc
            (pre @ join ('','' @ [LF] @ ind) partial @ [LF] @ stepback @ '']'' @ rest) =
          Inr (acc @ rendered_elements bn xs, rest)"
    and "\<And>ind partial fuel pre acc rest stepback.
          SerializeJSONObjectMembers bn ind kvs = Inr partial \<Longrightarrow> kvs \<noteq> [] \<Longrightarrow>
          json_ok_members kvs \<Longrightarrow> distinct (map fst kvs) \<Longrightarrow>
          fst ` set kvs \<inter> fst ` set acc = {} \<Longrightarrow>
          list_all is_ws ind \<Longrightarrow> list_all is_ws pre \<Longrightarrow> list_all is_ws stepback \<Longrightarrow>
          weight_members (rendered_members bn kvs) \<le> fuel \<Longrightarrow>
          parse_members fuel acc
            (pre @ join ('','' @ [LF] @ ind) partial @ [LF] @ stepback @ ''}'' @ rest) =
          Inr (acc @ rendered_members bn kvs, rest)"
proof (induction v and xs and kvs rule: weight_weight_elements_weight_members.induct)
  case 1
  then obtain n where "fuel = Suc n" by (cases fuel) auto
  moreover from 1 have "out = ''null''" by simp
  ultimately show ?case using 1 parse_value_literals [of pre n rest] by simp
next
  case (2 b)
  then obtain n where "fuel = Suc n" by (cases fuel) auto
  moreover from 2 have "out = (if b then ''true'' else ''false'')" by simp
  ultimately show ?case using 2 parse_value_literals [of pre n rest] by simp
next
  case (3 i)
  then obtain n where "fuel = Suc n" by (cases fuel) auto
  moreover from 3 have "out = int_to_dec i" by simp
  ultimately show ?case using 3 parse_value_number [of pre rest i n] by simp
next
  case (4 s)
  then obtain n where "fuel = Suc n" by (cases fuel) auto
  moreover from 4 have "out = QuoteJSONString s" by simp
  ultimately show ?case using 4 parse_value_string [of pre n s rest] by simp
next
  case (5 xs)
  from 5(7) obtain n where fuel: "fuel = Suc n" and n: "weight_elements (rendered_elements bn xs) \<le> n"
    by (cases fuel) auto
  from 5(2) obtain partial where
    partial: "SerializeJSONArrayElements bn (ind @ [TAB]) 0 xs = Inr partial"
    and out: "out = (if partial = [] then ''[]''
               else ''['' @ [LF] @ (ind @ [TAB]) @
                    join ('','' @ [LF] @ (ind @ [TAB])) partial @ [LF] @ ind @ '']'')"
    by (auto simp: ser_JArr split: sum.splits)
  show ?case
  proof (cases "xs = []")
    case True
    with partial out fuel 5(5) show ?thesis
      using parse_value_empty(1) [of pre n rest] by simp
  next
    case False
    with partial obtain p ps where pp: "partial = p # ps"
      using ser_elements_length [OF partial] by (cases partial) auto
    from False obtain x xs' where xs: "xs = x # xs'" by (cases xs) auto
    from partial xs pp have "SerializeJSONProperty bn (ind @ [TAB]) (nat_to_dec 0) x = Inr p"
      by (auto split: sum.splits)
    then obtain d p' where p: "p = d # p'" and d: "start_char d"
      using ser_start by blast
    define body where "body = join ('','' @ [LF] @ (ind @ [TAB])) partial @ [LF] @ ind @ '']'' @ rest"
    have jb: "\<exists>t. body = d # t"
      by (simp add: body_def pp p join_Cons)
    then obtain t where t: "body = d # t" by blast
    have ws: "list_all is_ws (ind @ [TAB])" "list_all is_ws (LF # ind @ [TAB])"
      using 5(4) by simp_all
    have "parse_elements n [] ([] @ body) = Inr ([] @ rendered_elements bn xs, rest)"
      unfolding body_def
      using 5(1) [OF partial False _ ws(1) _ 5(4) n, of "[]" "[]" rest] 5(3) by simp
    then have pe: "parse_elements n [] (d # t) = Inr (rendered_elements bn xs, rest)"
      using t by simp
    have "pre @ out @ rest = pre @ ''['' @ (LF # ind @ [TAB]) @ d # t"
      using out pp t by (simp add: body_def)
    then show ?thesis
      using parse_value_array [OF 5(5) ws(2) d, of n t] pe fuel by simp
  qed
next
  case (6 kvs)
  show ?case
  proof (cases "BigNumber_shaped (JObj kvs)")
    case True
    with 6(2) obtain s where s: "bn (JObj kvs) = Inr s" and out: "out = QuoteJSONString s"
      by (auto simp: ser_JObj split: sum.splits)
    from 6(7) True s obtain n where "fuel = Suc n" by (cases fuel) auto
    with True s out 6(5) show ?thesis using parse_value_string [of pre n s rest] by simp
  next
    case False
    note unshaped = False
    from 6(7) False obtain n where fuel: "fuel = Suc n"
      and n: "weight_members (rendered_members bn kvs) \<le> n"
      by (cases fuel) auto
    from 6(2) False obtain partial where
      partial: "SerializeJSONObjectMembers bn (ind @ [TAB]) kvs = Inr partial"
      and out: "out = (if partial = [] then ''{}''
                 else ''{'' @ [LF] @ (ind @ [TAB]) @
                      join ('','' @ [LF] @ (ind @ [TAB])) partial @ [LF] @ ind @ ''}'')"
      by (auto simp: ser_JObj split: sum.splits)
    show ?thesis
    proof (cases "kvs = []")
      case True
      with partial out fuel 6(5) unshaped show ?thesis
        using parse_value_empty(2) [of pre n rest] by simp
    next
      case False
      with partial obtain p ps where pp: "partial = p # ps"
        using ser_members_length [OF partial] by (cases partial) auto
      from False obtain k x kvs' where kvs: "kvs = (k, x) # kvs'" by (cases kvs) auto
      from partial kvs pp obtain p' where p: "p = DQ # p'"
        by (auto simp: QuoteJSONString_def split: sum.splits)
      define body where
        "body = join ('','' @ [LF] @ (ind @ [TAB])) partial @ [LF] @ ind @ ''}'' @ rest"
      have "\<exists>t. body = DQ # t"
        by (simp add: body_def pp p join_Cons)
      then obtain t where t: "body = DQ # t" by blast
      have ws: "list_all is_ws (ind @ [TAB])" "list_all is_ws (LF # ind @ [TAB])"
        using 6(4) by simp_all
      have ok: "json_ok_members kvs" "distinct (map fst kvs)" using 6(3) by simp_all
      have "parse_members n [] ([] @ body) = Inr ([] @ rendered_members bn kvs, rest)"
        unfolding body_def
        using 6(1) [OF partial False ok _ ws(1) _ 6(4) n, of "[]" "[]" rest] by simp
      then have pe: "parse_members n [] (DQ # t) = Inr (rendered_members bn kvs, rest)"
        using t by simp
      have "pre @ out @ rest = pre @ ''{'' @ (LF # ind @ [TAB]) @ DQ # t"
        using out pp t by (simp add: body_def)
      then show ?thesis
        using parse_value_object [OF 6(5) ws(2), of n t] pe fuel unshaped by simp
    qed
  qed
next
  case 7
  then show ?case by simp
next
  case (8 x xs)
  from 8(3) obtain p ps where p: "SerializeJSONProperty bn ind (nat_to_dec i) x = Inr p"
    and ps: "SerializeJSONArrayElements bn ind (Suc i) xs = Inr ps"
    and partial: "partial = p # ps"
    by (auto split: sum.splits)
  from 8(9) obtain n where fuel: "fuel = Suc n"
    and nx: "weight (rendered bn x) \<le> n"
    and nxs: "weight_elements (rendered_elements bn xs) \<le> n"
    by (cases fuel) auto
  have okx: "json_ok x" and okxs: "json_ok_elements xs" using 8(5) by simp_all
  show ?case
  proof (cases "xs = []")
    case True
    with ps have "ps = []" by simp
    have "parse_value n (pre @ p @ (LF # stepback @ '']'' @ rest)) =
            Inr (rendered bn x, LF # stepback @ '']'' @ rest)"
      using 8(1) [OF p okx 8(6) 8(7) _ nx] by simp
    moreover have "skip_ws (LF # stepback @ '']'' @ rest) = CHR '']'' # rest"
      using skip_ws_append [of "LF # stepback" "'']'' @ rest"] 8(8)
      by (simp add: skip_ws_Cons is_ws_def)
    ultimately show ?thesis
      using True \<open>ps = []\<close> partial fuel by (simp add: parse_simps)
  next
    case False
    then have psne: "ps \<noteq> []" using ser_elements_length [OF ps] by auto
    define tail where "tail = join ('','' @ [LF] @ ind) ps @ [LF] @ stepback @ '']'' @ rest"
    have "parse_value n (pre @ p @ (CHR '','' # LF # ind @ tail)) =
            Inr (rendered bn x, CHR '','' # LF # ind @ tail)"
      using 8(1) [OF p okx 8(6) 8(7) _ nx] by simp
    moreover have "skip_ws (CHR '','' # LF # ind @ tail) = CHR '','' # LF # ind @ tail"
      by (simp add: skip_ws_Cons is_ws_def)
    moreover have "parse_elements n (acc @ [rendered bn x]) ((LF # ind) @ tail) =
            Inr ((acc @ [rendered bn x]) @ rendered_elements bn xs, rest)"
      unfolding tail_def
      using 8(2) [OF ps False okxs 8(6) _ 8(8) nxs, of "LF # ind"] 8(6) by simp
    moreover have "pre @ join ('','' @ [LF] @ ind) partial @ [LF] @ stepback @ '']'' @ rest =
            pre @ p @ (CHR '','' # LF # ind @ tail)"
      using psne by (simp add: partial join_Cons tail_def)
    ultimately show ?thesis
      using fuel by (simp add: parse_simps)
  qed
next
  case 9
  then show ?case by simp
next
  case (10 k x kvs)
  from 10(3) obtain p ps where p: "SerializeJSONProperty bn ind k x = Inr p"
    and ps: "SerializeJSONObjectMembers bn ind kvs = Inr ps"
    and partial: "partial = (QuoteJSONString k @ '': '' @ p) # ps"
    by (auto split: sum.splits)
  from 10(11) obtain n where fuel: "fuel = Suc n"
    and nx: "weight (rendered bn x) \<le> n"
    and nxs: "weight_members (rendered_members bn kvs) \<le> n"
    by (cases fuel) auto
  have okx: "json_ok x" and okxs: "json_ok_members kvs" using 10(5) by simp_all
  have dist: "distinct (map fst kvs)" and fresh: "k \<notin> fst ` set acc"
    and disj: "fst ` set kvs \<inter> fst ` set (acc @ [(k, rendered bn x)]) = {}"
    using 10(6,7) by auto
  have upd: "AList.update k (rendered bn x) acc = acc @ [(k, rendered bn x)]"
    using fresh by (rule update_fresh)
  have key: "\<And>s. skip_ws (pre @ QuoteJSONString k @ s) = DQ # concat (map quote_char k) @ DQ # s"
    using parse_value_start [OF 10(9), of DQ] by (simp add: QuoteJSONString_def start_char_def)
  have colon: "\<And>s. skip_ws ('': '' @ s) = CHR '':'' # CHR '' '' # s"
    by (simp add: skip_ws_Cons is_ws_def)
  have sp: "list_all is_ws '' ''" by simp
  show ?case
  proof (cases "kvs = []")
    case True
    with ps have "ps = []" by simp
    have "parse_value n ('' '' @ p @ (LF # stepback @ ''}'' @ rest)) =
            Inr (rendered bn x, LF # stepback @ ''}'' @ rest)"
      using 10(1) [OF p okx 10(8) sp _ nx] by simp
    moreover have "skip_ws (LF # stepback @ ''}'' @ rest) = CHR ''}'' # rest"
      using skip_ws_append [of "LF # stepback" "''}'' @ rest"] 10(10)
      by (simp add: skip_ws_Cons is_ws_def)
    moreover have "pre @ join ('','' @ [LF] @ ind) partial @ [LF] @ stepback @ ''}'' @ rest =
            pre @ QuoteJSONString k @ ('': '' @ p @ (LF # stepback @ ''}'' @ rest))"
      using \<open>ps = []\<close> by (simp add: partial)
    ultimately show ?thesis
      using True fuel upd key [of "'': '' @ p @ (LF # stepback @ ''}'' @ rest)"]
        colon [of "p @ (LF # stepback @ ''}'' @ rest)"]
      by (simp add: parse_simps parse_chars_quoted)
  next
    case False
    then have psne: "ps \<noteq> []" using ser_members_length [OF ps] by auto
    define tail where "tail = join ('','' @ [LF] @ ind) ps @ [LF] @ stepback @ ''}'' @ rest"
    have "parse_value n ('' '' @ p @ (CHR '','' # LF # ind @ tail)) =
            Inr (rendered bn x, CHR '','' # LF # ind @ tail)"
      using 10(1) [OF p okx 10(8) sp _ nx] by simp
    moreover have "skip_ws (CHR '','' # LF # ind @ tail) = CHR '','' # LF # ind @ tail"
      by (simp add: skip_ws_Cons is_ws_def)
    moreover have "parse_members n (acc @ [(k, rendered bn x)]) ((LF # ind) @ tail) =
            Inr ((acc @ [(k, rendered bn x)]) @ rendered_members bn kvs, rest)"
      unfolding tail_def
      using 10(2) [OF ps False okxs dist disj 10(8) _ 10(10) nxs, of "LF # ind"] 10(8) by simp
    moreover have "pre @ join ('','' @ [LF] @ ind) partial @ [LF] @ stepback @ ''}'' @ rest =
            pre @ QuoteJSONString k @ ('': '' @ p @ (CHR '','' # LF # ind @ tail))"
      using psne by (simp add: partial join_Cons tail_def)
    ultimately show ?thesis
      using fuel upd key [of "'': '' @ p @ (CHR '','' # LF # ind @ tail)"]
        colon [of "p @ (CHR '','' # LF # ind @ tail)"]
      by (simp add: parse_simps parse_chars_quoted)
  qed
qed

lemma weight_le_length:
  shows "\<And>ind key out. SerializeJSONProperty bn ind key v = Inr out \<Longrightarrow>
           weight (rendered bn v) \<le> length out"
    and "\<And>ind i partial sep. SerializeJSONArrayElements bn ind i xs = Inr partial \<Longrightarrow>
           sep \<noteq> [] \<Longrightarrow>
           weight_elements (rendered_elements bn xs) \<le> Suc (length (join sep partial))"
    and "\<And>ind partial sep. SerializeJSONObjectMembers bn ind kvs = Inr partial \<Longrightarrow>
           sep \<noteq> [] \<Longrightarrow>
           weight_members (rendered_members bn kvs) \<le> Suc (length (join sep partial))"
proof (induction v and xs and kvs rule: weight_weight_elements_weight_members.induct)
  case 1
  then show ?case by auto
next
  case (2 b)
  then show ?case by auto
next
  case (3 n)
  then show ?case using int_to_dec_start [of n] by auto
next
  case (4 s)
  then show ?case by (auto simp: QuoteJSONString_def)
next
  case (5 xs)
  from 5(2) obtain partial where
    partial: "SerializeJSONArrayElements bn (ind @ [TAB]) 0 xs = Inr partial"
    and out: "out = (if partial = [] then ''[]''
               else ''['' @ [LF] @ (ind @ [TAB]) @
                    join ('','' @ [LF] @ (ind @ [TAB])) partial @ [LF] @ ind @ '']'')"
    by (auto simp: ser_JArr split: sum.splits)
  have w: "weight_elements (rendered_elements bn xs)
             \<le> Suc (length (join ('','' @ [LF] @ (ind @ [TAB])) partial))"
    using 5(1) [OF partial] by simp
  show ?case
  proof (cases "partial = []")
    case True
    then have "xs = []" using ser_elements_length [OF partial] by simp
    with True out show ?thesis by simp
  next
    case False
    with out w show ?thesis by simp
  qed
next
  case (6 kvs)
  show ?case
  proof (cases "BigNumber_shaped (JObj kvs)")
    case True
    with 6(2) show ?thesis
      by (auto simp: ser_JObj QuoteJSONString_def split: sum.splits)
  next
    case False
    with 6(2) obtain partial where
      partial: "SerializeJSONObjectMembers bn (ind @ [TAB]) kvs = Inr partial"
      and out: "out = (if partial = [] then ''{}''
                 else ''{'' @ [LF] @ (ind @ [TAB]) @
                      join ('','' @ [LF] @ (ind @ [TAB])) partial @ [LF] @ ind @ ''}'')"
      by (auto simp: ser_JObj split: sum.splits)
    have w: "weight_members (rendered_members bn kvs)
               \<le> Suc (length (join ('','' @ [LF] @ (ind @ [TAB])) partial))"
      using 6(1) [OF partial] by simp
    show ?thesis
    proof (cases "partial = []")
      case True
      then have "kvs = []" using ser_members_length [OF partial] by simp
      with True out False show ?thesis by simp
    next
      case False
      with out w \<open>\<not> BigNumber_shaped (JObj kvs)\<close> show ?thesis by simp
    qed
  qed
next
  case 7
  then show ?case by simp
next
  case (8 x xs)
  from 8(3) obtain p ps where p: "SerializeJSONProperty bn ind (nat_to_dec i) x = Inr p"
    and ps: "SerializeJSONArrayElements bn ind (Suc i) xs = Inr ps"
    and partial: "partial = p # ps"
    by (auto split: sum.splits)
  have wx: "weight (rendered bn x) \<le> length p" using 8(1) [OF p] .
  have wxs: "weight_elements (rendered_elements bn xs) \<le> Suc (length (join sep ps))"
    using 8(2) [OF ps 8(4)] .
  show ?case
  proof (cases "ps = []")
    case True
    then have "xs = []" using ser_elements_length [OF ps] by simp
    with True wx partial show ?thesis by simp
  next
    case False
    have "length sep \<ge> 1" using 8(4) by (cases sep) auto
    with False wx wxs partial show ?thesis by (simp add: join_Cons)
  qed
next
  case 9
  then show ?case by simp
next
  case (10 k x kvs)
  from 10(3) obtain p ps where p: "SerializeJSONProperty bn ind k x = Inr p"
    and ps: "SerializeJSONObjectMembers bn ind kvs = Inr ps"
    and partial: "partial = (QuoteJSONString k @ '': '' @ p) # ps"
    by (auto split: sum.splits)
  have wx: "weight (rendered bn x) \<le> length p" using 10(1) [OF p] .
  have wxs: "weight_members (rendered_members bn kvs) \<le> Suc (length (join sep ps))"
    using 10(2) [OF ps 10(4)] .
  show ?case
  proof (cases "ps = []")
    case True
    then have "kvs = []" using ser_members_length [OF ps] by simp
    with True wx partial show ?thesis by simp
  next
    case False
    have "length sep \<ge> 1" using 10(4) by (cases sep) auto
    with False wx wxs partial show ?thesis by (simp add: join_Cons)
  qed
qed


lemma stringify_parse:
  assumes "stringify bn v = Inr s" and "json_ok v"
  shows "JSON_parse s = Inr (rendered bn v)"
proof -
  from assms(1) obtain out where out: "SerializeJSONProperty bn [] [] v = Inr out"
    and s: "s = out @ [LF]"
    by (auto simp: stringify_def split: sum.splits)
  have "weight (rendered bn v) \<le> length out" using weight_le_length(1) [OF out] .
  then have w: "weight (rendered bn v) \<le> 2 * length s + 1" using s by simp
  have "parse_value (2 * length s + 1) ([] @ out @ [LF]) = Inr (rendered bn v, [LF])"
    using roundtrip(1) [OF out assms(2) _ _ _ w, of "[]" "[LF]"] by simp
  then show ?thesis
    using s by (simp add: JSON_parse_def skip_ws_def)
qed

subsection \<open>The fuel of the parser is enough\<close>

text \<open>
  Every parser that returns has consumed a character, so a text of length \<open>n\<close> needs at
  most \<open>2 * n + 1\<close> nested calls: \<open>JSON_parse\<close> never ends for lack of fuel, and each
  error it gives is one of the parser itself.
\<close>

lemma skip_ws_length: "length (skip_ws s) \<le> length s"
  by (simp add: skip_ws_def length_dropWhile_le)

lemma skip_ws_Cons_length: "skip_ws s = c # cs \<Longrightarrow> length cs < length s"
  using skip_ws_length [of s] by simp

lemma parse_chars_shorter: "parse_chars s = Inr (k, rest) \<Longrightarrow> length rest < length s"
proof (induction s arbitrary: k rule: length_induct)
  case (1 s)
  note IH = 1(1) [rule_format]
  show ?case
  proof (cases s)
    case Nil
    with 1(2) show ?thesis by simp
  next
    case (Cons c cs)
    show ?thesis
    proof (cases "c = DQ")
      case True
      with 1(2) Cons show ?thesis by simp
    next
      case False
      note notq = False
      show ?thesis
      proof (cases "c = BSL")
        case False
        with 1(2) Cons notq obtain k' where "parse_chars cs = Inr (k', rest)"
          by (auto split: if_splits sum.splits)
        from IH [OF _ this] Cons show ?thesis by simp
      next
        case True
        with 1(2) Cons obtain e cs1 where cs: "cs = e # cs1" by (cases cs) auto
        show ?thesis
        proof (cases "e = CHR ''u''")
          case False
          with 1(2) Cons True cs obtain k' where "parse_chars cs1 = Inr (k', rest)"
            by (auto split: option.splits sum.splits)
          from IH [OF _ this] Cons cs show ?thesis by simp
        next
          case u: True
          with 1(2) Cons True cs obtain h1 h2 h3 h4 cs2 k' where
            "cs1 = h1 # h2 # h3 # h4 # cs2" and "parse_chars cs2 = Inr (k', rest)"
            by (auto split: list.splits sum.splits)
          from IH [OF _ this(2)] this(1) Cons cs show ?thesis by simp
        qed
      qed
    qed
  qed
qed

lemma unicode_escape_fuel: "\<not> out_of_fuel (unicode_escape h1 h2 h3 h4)"
  by (auto simp: out_of_fuel_def unicode_escape_def SyntaxError_def Unmodelled_def
      split: option.splits)

lemma parse_chars_fuel: "\<not> out_of_fuel (parse_chars s)"
proof (induction s rule: length_induct)
  case (1 s)
  note IH = 1 [rule_format]
  have sub: "\<not> out_of_fuel (case parse_chars t of Inl err \<Rightarrow> Inl err
                | Inr (k, rest) \<Rightarrow> Inr (ch # k, rest))"
    if "length t < length s" for t ch
    using IH [OF that] by (auto simp: out_of_fuel_def split: sum.splits)
  show ?case
  proof (cases s)
    case Nil
    then show ?thesis by (simp add: out_of_fuel_def SyntaxError_def Unmodelled_def)
  next
    case (Cons c cs)
    show ?thesis
    proof (cases "c = DQ")
      case True
      with Cons show ?thesis by (simp add: out_of_fuel_def)
    next
      case False
      note notq = False
      show ?thesis
      proof (cases "c = BSL")
        case False
        show ?thesis
          using sub [of cs c] Cons notq False
          by (simp add: out_of_fuel_def SyntaxError_def Unmodelled_def)
      next
        case True
        show ?thesis
        proof (cases cs)
          case Nil
          with Cons True show ?thesis
            by (simp add: out_of_fuel_def SyntaxError_def Unmodelled_def)
        next
          case (Cons e cs1)
          note cs = Cons
          show ?thesis
          proof (cases "e = CHR ''u''")
            case False
            show ?thesis
            proof (cases "unescape e")
              case None
              with \<open>s = c # cs\<close> True cs False show ?thesis
                by (simp add: out_of_fuel_def SyntaxError_def Unmodelled_def)
            next
              case (Some ch)
              with \<open>s = c # cs\<close> True cs False sub [of cs1 ch] show ?thesis
                by simp
            qed
          next
            case u: True
            show ?thesis
            proof (cases "\<exists>h1 h2 h3 h4 cs2. cs1 = h1 # h2 # h3 # h4 # cs2")
              case False
              with \<open>s = c # cs\<close> True cs u show ?thesis
                by (auto simp: out_of_fuel_def SyntaxError_def Unmodelled_def split: list.splits)
            next
              case True
              then obtain h1 h2 h3 h4 cs2 where cs1: "cs1 = h1 # h2 # h3 # h4 # cs2" by blast
              show ?thesis
              proof (cases "unicode_escape h1 h2 h3 h4")
                case (Inl err)
                with unicode_escape_fuel [of h1 h2 h3 h4] \<open>s = c # cs\<close> \<open>c = BSL\<close> cs u cs1
                show ?thesis by (simp add: out_of_fuel_def)
              next
                case (Inr ch)
                with \<open>s = c # cs\<close> \<open>c = BSL\<close> cs u cs1 sub [of cs2 ch] show ?thesis
                  by simp
              qed
            qed
          qed
        qed
      qed
    qed
  qed
qed

lemma integer_part_length: "length (integer_part s) \<le> length s"
  by (cases s) (auto simp: integer_part_def length_takeWhile_le le_SucI)

lemma parse_unsigned_shorter: "parse_unsigned s = Inr (n, rest) \<Longrightarrow> length rest < length s"
proof -
  assume a: "parse_unsigned s = Inr (n, rest)"
  then have ne: "integer_part s \<noteq> []" and r: "rest = drop (length (integer_part s)) s"
    by (auto simp: parse_unsigned_def Let_def split: if_splits)
  from ne have "0 < length (integer_part s)" by simp
  moreover have "s \<noteq> []" using ne by (auto simp: integer_part_def)
  ultimately show ?thesis using r integer_part_length [of s] by simp
qed

lemma parse_number_shorter: "parse_number s = Inr (i, rest) \<Longrightarrow> length rest < length s"
  by (cases s) (auto simp: parse_number_def split: if_splits sum.splits dest!: parse_unsigned_shorter)

lemma parse_number_fuel: "\<not> out_of_fuel (parse_number s)"
  by (auto simp: out_of_fuel_def parse_number_def parse_unsigned_def Let_def SyntaxError_def
      Unmodelled_def split: if_splits sum.splits)

lemma parse_literal_shorter:
  "word \<noteq> [] \<Longrightarrow> parse_literal word v s = Inr (v', rest) \<Longrightarrow> length rest < length s"
  by (auto simp: parse_literal_def prefix_def split: if_splits)

lemma parse_literal_fuel: "\<not> out_of_fuel (parse_literal word v s)"
  by (simp add: out_of_fuel_def parse_literal_def SyntaxError_def Unmodelled_def)

lemma skip_ws_whole_length: "skip_ws s = c # cs \<Longrightarrow> length (c # cs) \<le> length s"
  using skip_ws_length [of s] by simp

lemma parse_shorter:
  "(\<forall>s v r. parse_value n s = Inr (v, r) \<longrightarrow> length r < length s) \<and>
   (\<forall>acc s xs r. parse_elements n acc s = Inr (xs, r) \<longrightarrow> length r < length s) \<and>
   (\<forall>acc s kvs r. parse_members n acc s = Inr (kvs, r) \<longrightarrow> length r < length s)"
proof (induction n)
  case 0
  show ?case by (simp add: parse_simps)
next
  case (Suc n)
  note IHv = Suc [THEN conjunct1, rule_format]
  note IHe = Suc [THEN conjunct2, THEN conjunct1, rule_format]
  note IHm = Suc [THEN conjunct2, THEN conjunct2, rule_format]
  have v: "length r < length s" if p: "parse_value (Suc n) s = Inr (v, r)" for s v r
  proof (cases "skip_ws s")
    case Nil
    with p show ?thesis by (simp add: parse_simps)
  next
    case (Cons c cs)
    note lc = skip_ws_Cons_length [OF Cons] skip_ws_whole_length [OF Cons]
    consider (obj) "c = CHR ''{''" | (arr) "c = CHR ''[''" | (str) "c = DQ"
      | (lit) "c = CHR ''t'' \<or> c = CHR ''f'' \<or> c = CHR ''n''"
      | (num) "c \<noteq> CHR ''{''" "c \<noteq> CHR ''[''" "c \<noteq> DQ" "c \<noteq> CHR ''t''" "c \<noteq> CHR ''f''"
          "c \<noteq> CHR ''n''"
      by blast
    then show ?thesis
    proof cases
      case obj
      show ?thesis
      proof (cases "skip_ws cs")
        case Nil
        with p Cons obj show ?thesis by (simp add: parse_simps)
      next
        case (Cons d ds)
        note ld = skip_ws_Cons_length [OF Cons] skip_ws_whole_length [OF Cons]
        show ?thesis
        proof (cases "d = CHR ''}''")
          case True
          with p \<open>skip_ws s = c # cs\<close> obj Cons have "r = ds" by (simp add: parse_simps)
          with ld lc show ?thesis by simp
        next
          case False
          with p \<open>skip_ws s = c # cs\<close> obj Cons obtain kvs where
            "parse_members n [] (d # ds) = Inr (kvs, r)"
            by (auto simp: parse_simps split: sum.splits)
          from IHm [OF this] ld lc show ?thesis by simp
        qed
      qed
    next
      case arr
      show ?thesis
      proof (cases "skip_ws cs")
        case Nil
        with p Cons arr show ?thesis by (simp add: parse_simps)
      next
        case (Cons d ds)
        note ld = skip_ws_Cons_length [OF Cons] skip_ws_whole_length [OF Cons]
        show ?thesis
        proof (cases "d = CHR '']''")
          case True
          with p \<open>skip_ws s = c # cs\<close> arr Cons have "r = ds" by (simp add: parse_simps)
          with ld lc show ?thesis by simp
        next
          case False
          with p \<open>skip_ws s = c # cs\<close> arr Cons obtain xs where
            "parse_elements n [] (d # ds) = Inr (xs, r)"
            by (auto simp: parse_simps split: sum.splits)
          from IHe [OF this] ld lc show ?thesis by simp
        qed
      qed
    next
      case str
      with p Cons obtain k where "parse_chars cs = Inr (k, r)"
        by (auto simp: parse_simps split: sum.splits)
      from parse_chars_shorter [OF this] lc show ?thesis by simp
    next
      case lit
      with p Cons have "parse_literal ''true'' (JBool True) (c # cs) = Inr (v, r) \<or>
          parse_literal ''false'' (JBool False) (c # cs) = Inr (v, r) \<or>
          parse_literal ''null'' JNull (c # cs) = Inr (v, r)"
        by (auto simp: parse_simps)
      then have "length r < length (c # cs)"
        using parse_literal_shorter [of "''true''" "JBool True" "c # cs" v r]
          parse_literal_shorter [of "''false''" "JBool False" "c # cs" v r]
          parse_literal_shorter [of "''null''" JNull "c # cs" v r]
        by auto
      with lc show ?thesis by simp
    next
      case num
      with Cons have "parse_value (Suc n) s =
          (if c = CHR ''-'' \<or> is_digit c then
             (case parse_number (c # cs) of
                Inl err \<Rightarrow> Inl err
              | Inr (i, rest) \<Rightarrow> Inr (JNum i, rest))
           else Inl (SyntaxError ''Unexpected token in JSON''))"
        by (simp add: parse_simps)
      with p obtain i where "parse_number (c # cs) = Inr (i, r)"
        by (cases "c = CHR ''-'' \<or> is_digit c"; cases "parse_number (c # cs)") auto
      from parse_number_shorter [OF this] lc show ?thesis by simp
    qed
  qed
  have e: "length r < length s" if p: "parse_elements (Suc n) acc s = Inr (xs, r)" for acc s xs r
  proof -
    from p obtain v rest where pv: "parse_value n s = Inr (v, rest)"
      by (auto simp: parse_simps split: sum.splits)
    note l1 = IHv [OF pv]
    show ?thesis
    proof (cases "skip_ws rest")
      case Nil
      with p pv show ?thesis by (simp add: parse_simps)
    next
      case (Cons c cs)
      note lc = skip_ws_Cons_length [OF Cons]
      show ?thesis
      proof (cases "c = CHR '',''")
        case True
        with p pv Cons have "parse_elements n (acc @ [v]) cs = Inr (xs, r)"
          by (simp add: parse_simps)
        from IHe [OF this] lc l1 show ?thesis by simp
      next
        case False
        with p pv Cons have "r = cs"
          by (auto simp: parse_simps split: if_splits)
        with lc l1 show ?thesis by simp
      qed
    qed
  qed
  have m: "length r < length s" if p: "parse_members (Suc n) acc s = Inr (kvs, r)" for acc s kvs r
  proof (cases "skip_ws s")
    case Nil
    with p show ?thesis by (simp add: parse_simps)
  next
    case (Cons q cs)
    note lq = skip_ws_Cons_length [OF Cons]
    from p Cons obtain k rest where pk: "parse_chars cs = Inr (k, rest)" and q: "q = DQ"
      by (auto simp: parse_simps split: if_splits sum.splits)
    note lk = parse_chars_shorter [OF pk]
    show ?thesis
    proof (cases "skip_ws rest")
      case Nil
      with p \<open>skip_ws s = q # cs\<close> q pk show ?thesis by (simp add: parse_simps)
    next
      case (Cons colon cs1)
      note l1 = skip_ws_Cons_length [OF Cons]
      from p \<open>skip_ws s = q # cs\<close> q pk Cons obtain v rest1 where
        pv: "parse_value n cs1 = Inr (v, rest1)" and colon: "colon = CHR '':''"
        by (auto simp: parse_simps split: if_splits sum.splits)
      note lv = IHv [OF pv]
      show ?thesis
      proof (cases "skip_ws rest1")
        case Nil
        with p \<open>skip_ws s = q # cs\<close> q pk \<open>skip_ws rest = colon # cs1\<close> colon pv show ?thesis
          by (simp add: parse_simps)
      next
        case (Cons c cs2)
        note l2 = skip_ws_Cons_length [OF Cons]
        show ?thesis
        proof (cases "c = CHR '',''")
          case True
          with p \<open>skip_ws s = q # cs\<close> q pk \<open>skip_ws rest = colon # cs1\<close> colon pv Cons
          have "parse_members n (AList.update k v acc) cs2 = Inr (kvs, r)"
            by (simp add: parse_simps)
          from IHm [OF this] l2 lv l1 lk lq show ?thesis by simp
        next
          case False
          with p \<open>skip_ws s = q # cs\<close> q pk \<open>skip_ws rest = colon # cs1\<close> colon pv Cons
          have "r = cs2"
            by (auto simp: parse_simps split: if_splits)
          with l2 lv l1 lk lq show ?thesis by simp
        qed
      qed
    qed
  qed
  from v e m show ?case by blast
qed

lemma out_of_fuel_case [simp]:
  "out_of_fuel (case x of Inl err \<Rightarrow> Inl err | Inr (a, b) \<Rightarrow> Inr (f a b)) = out_of_fuel x"
  by (cases x) (auto simp: out_of_fuel_def)

lemma out_of_fuel_SyntaxError [simp]: "\<not> out_of_fuel (Inl (SyntaxError msg))"
  by (simp add: out_of_fuel_def SyntaxError_def Unmodelled_def)

lemma out_of_fuel_Inr [simp]: "\<not> out_of_fuel (Inr x)"
  by (simp add: out_of_fuel_def)

lemma parse_fuel:
  "(\<forall>s. 2 * length s + 1 \<le> n \<longrightarrow> \<not> out_of_fuel (parse_value n s)) \<and>
   (\<forall>acc s. 2 * length s + 2 \<le> n \<longrightarrow> \<not> out_of_fuel (parse_elements n acc s)) \<and>
   (\<forall>acc s. 2 * length s + 2 \<le> n \<longrightarrow> \<not> out_of_fuel (parse_members n acc s))"
proof (induction n)
  case 0
  show ?case by simp
next
  case (Suc n)
  note IHv = Suc [THEN conjunct1, rule_format]
  note IHe = Suc [THEN conjunct2, THEN conjunct1, rule_format]
  note IHm = Suc [THEN conjunct2, THEN conjunct2, rule_format]
  have v: "\<not> out_of_fuel (parse_value (Suc n) s)" if n: "2 * length s + 1 \<le> Suc n" for s
  proof (cases "skip_ws s")
    case Nil
    then show ?thesis by (simp add: parse_simps)
  next
    case (Cons c cs)
    note lc = skip_ws_Cons_length [OF Cons]
    have inner: "\<not> out_of_fuel (parse_members n [] (d # ds)) \<and>
        \<not> out_of_fuel (parse_elements n [] (d # ds))" if d: "skip_ws cs = d # ds" for d ds
    proof -
      from skip_ws_whole_length [OF d] lc n have "2 * length (d # ds) + 2 \<le> n" by simp
      from IHm [OF this] IHe [OF this] show ?thesis by simp
    qed
    show ?thesis
    proof (cases "skip_ws cs")
      case Nil
      with Cons show ?thesis
        by (simp add: parse_simps parse_chars_fuel parse_literal_fuel parse_number_fuel)
    next
      case (Cons d ds)
      from inner [OF Cons] Cons \<open>skip_ws s = c # cs\<close> show ?thesis
        by (auto simp: parse_simps parse_chars_fuel parse_literal_fuel parse_number_fuel)
    qed
  qed
  have e: "\<not> out_of_fuel (parse_elements (Suc n) acc s)" if n: "2 * length s + 2 \<le> Suc n" for acc s
  proof (cases "parse_value n s")
    case (Inl err)
    from n have "2 * length s + 1 \<le> n" by simp
    from IHv [OF this] Inl show ?thesis by (simp add: parse_simps out_of_fuel_def SyntaxError_def Unmodelled_def)
  next
    case (Inr p)
    obtain v rest where p: "p = (v, rest)" by (cases p)
    from Inr p parse_shorter [of n] have l1: "length rest < length s" by blast
    show ?thesis
    proof (cases "skip_ws rest")
      case Nil
      with Inr p show ?thesis by (simp add: parse_simps)
    next
      case (Cons c cs)
      from skip_ws_Cons_length [OF Cons] l1 n have "2 * length cs + 2 \<le> n" by simp
      from IHe [OF this] Inr p Cons show ?thesis by (simp add: parse_simps)
    qed
  qed
  have m: "\<not> out_of_fuel (parse_members (Suc n) acc s)" if n: "2 * length s + 2 \<le> Suc n" for acc s
  proof (cases "skip_ws s")
    case Nil
    then show ?thesis by (simp add: parse_simps)
  next
    case 1: (Cons q cs)
    note lq = skip_ws_Cons_length [OF 1]
    show ?thesis
    proof (cases "parse_chars cs")
      case (Inl err)
      with 1 parse_chars_fuel [of cs] show ?thesis by (simp add: parse_simps out_of_fuel_def SyntaxError_def Unmodelled_def)
    next
      case 2: (Inr p)
      obtain k rest where p: "p = (k, rest)" by (cases p)
      from 2 p have lk: "length rest < length cs" by (simp add: parse_chars_shorter)
      show ?thesis
      proof (cases "skip_ws rest")
        case Nil
        with 1 2 p show ?thesis by (simp add: parse_simps)
      next
        case 3: (Cons colon cs1)
        note l1 = skip_ws_Cons_length [OF 3]
        show ?thesis
        proof (cases "parse_value n cs1")
          case (Inl err)
          from l1 lk lq n have "2 * length cs1 + 1 \<le> n" by simp
          from IHv [OF this] Inl 1 2 p 3 show ?thesis by (simp add: parse_simps out_of_fuel_def SyntaxError_def Unmodelled_def)
        next
          case 4: (Inr p1)
          obtain v rest1 where p1: "p1 = (v, rest1)" by (cases p1)
          from 4 p1 parse_shorter [of n] have lv: "length rest1 < length cs1" by blast
          show ?thesis
          proof (cases "skip_ws rest1")
            case Nil
            with 1 2 p 3 4 p1 show ?thesis by (simp add: parse_simps)
          next
            case 5: (Cons c cs2)
            from skip_ws_Cons_length [OF 5] lv l1 lk lq n have "2 * length cs2 + 2 \<le> n" by simp
            from IHm [OF this] 1 2 p 3 4 p1 5 show ?thesis by (simp add: parse_simps)
          qed
        qed
      qed
    qed
  qed
  from v e m show ?case by blast
qed

lemma JSON_parse_fuel: "\<not> out_of_fuel (JSON_parse s)"
proof -
  have "\<not> out_of_fuel (parse_value (2 * length s + 1) s)"
    using parse_fuel [of "2 * length s + 1"] by simp
  then show ?thesis
    by (auto simp: JSON_parse_def out_of_fuel_def SyntaxError_def Unmodelled_def Let_def
        split: sum.splits prod.splits list.splits if_splits)
qed

subsection \<open>stringify\<close>





subsection \<open>allowZeroOrUpdateIfNonZero\<close>

text \<open>
  C10. For all strings \<open>param\<close> and \<open>input\<close>, \<open>allowZeroOrUpdateIfNonZero param input\<close>
  is true exactly when \<open>param\<close> is \<open>''0''\<close> or \<open>input\<close> is not \<open>''0''\<close>; it is false only
  when \<open>param\<close> is not \<open>''0''\<close> and \<open>input\<close> is \<open>''0''\<close>.
\<close>

theorem allowZeroOrUpdateIfNonZero_spec:
  "(allowZeroOrUpdateIfNonZero param input \<longleftrightarrow> param = ''0'' \<or> input \<noteq> ''0'') \<and>
   (\<not> allowZeroOrUpdateIfNonZero param input \<longleftrightarrow> param \<noteq> ''0'' \<and> input = ''0'')"
  by (auto simp: allowZeroOrUpdateIfNonZero_def)

theorem allowZeroOrUpdateIfNonZero_spec_witness:
  "allowZeroOrUpdateIfNonZero ''0'' ''0'' \<and> \<not> allowZeroOrUpdateIfNonZero ''5'' ''0'' \<and>
   allowZeroOrUpdateIfNonZero ''5'' ''7''"
  using allowZeroOrUpdateIfNonZero_spec [of "''0''" "''0''"]
    allowZeroOrUpdateIfNonZero_spec [of "''5''" "''0''"]
    allowZeroOrUpdateIfNonZero_spec [of "''5''" "''7''"]
  by simp

subsection \<open>ensureNetwork\<close>

lemma sublist_join_member: "n \<in> set ns \<Longrightarrow> sublist n (join sep ns)"
proof (induction sep ns rule: join.induct)
  case (1 sep)
  then show ?case by simp
next
  case (2 sep x)
  then show ?case by simp
next
  case (3 sep x y ys)
  show ?case
  proof (cases "n = x")
    case True
    have "join sep (x # y # ys) = [] @ n @ (sep @ join sep (y # ys))"
      using True by simp
    then show ?thesis unfolding sublist_def by blast
  next
    case False
    with 3 have "sublist n (join sep (y # ys))" by simp
    then obtain ps ss where "join sep (y # ys) = ps @ n @ ss"
      unfolding sublist_def by blast
    then have "join sep (x # y # ys) = (x @ sep @ ps) @ n @ ss" by simp
    then show ?thesis unfolding sublist_def by blast
  qed
qed

text \<open>
  C8. A network name outside the allow-list makes \<open>ensureNetwork\<close> throw an
  \<^verbatim>\<open>Error\<close> whose message contains the rejected name, the allow-list joined
  with \<open>'', ''\<close>, and so every allowed name; a name of the allow-list makes it return
  normally. The function reads its two arguments only and returns no state: it has no
  effect besides the throw.
\<close>

theorem ensureNetwork_spec:
  "(network \<notin> set networks \<longrightarrow>
      (\<exists>msg. ensureNetwork networks network = Inl (Error msg) \<and>
             sublist network msg \<and>
             sublist (join '', '' networks) msg \<and>
             (\<forall>n \<in> set networks. sublist n msg))) \<and>
   (network \<in> set networks \<longrightarrow> ensureNetwork networks network = Inr ())"
proof (intro conjI impI)
  assume out: "network \<notin> set networks"
  define msg where "msg = ''Invalid network name of '' @ [CHR 0x22] @ network @ [CHR 0x22] @
      '' supplied. Must be one of '' @ join '', '' networks @ ''.''"
  have thrown: "ensureNetwork networks network = Inl (Error msg)"
    using out by (simp add: ensureNetwork_def msg_def)
  have "msg = (''Invalid network name of '' @ [CHR 0x22]) @ network @
      ([CHR 0x22] @ '' supplied. Must be one of '' @ join '', '' networks @ ''.'')"
    by (simp add: msg_def)
  then have named: "sublist network msg" unfolding sublist_def by blast
  have "msg = (''Invalid network name of '' @ [CHR 0x22] @ network @ [CHR 0x22] @
      '' supplied. Must be one of '') @ join '', '' networks @ ''.''"
    by (simp add: msg_def)
  then have listed: "sublist (join '', '' networks) msg" unfolding sublist_def by blast
  have each: "\<forall>n \<in> set networks. sublist n msg"
    using listed sublist_join_member sublist_order.order_trans by blast
  show "\<exists>msg. ensureNetwork networks network = Inl (Error msg) \<and>
             sublist network msg \<and>
             sublist (join '', '' networks) msg \<and>
             (\<forall>n \<in> set networks. sublist n msg)"
    using thrown named listed each by blast
next
  assume "network \<in> set networks"
  then show "ensureNetwork networks network = Inr ()"
    by (simp add: ensureNetwork_def)
qed

theorem ensureNetwork_spec_witness:
  "ensureNetwork [''local'', ''goerli'', ''mainnet''] ''goerli'' = Inr () \<and>
   (\<exists>msg. ensureNetwork [''local'', ''goerli'', ''mainnet''] ''kovan'' = Inl (Error msg) \<and>
          sublist ''kovan'' msg \<and> sublist ''local, goerli, mainnet'' msg)"
proof -
  have a: "ensureNetwork [''local'', ''goerli'', ''mainnet''] ''goerli'' = Inr ()"
    using ensureNetwork_spec [of "''goerli''" "[''local'', ''goerli'', ''mainnet'']"] by simp
  have b: "\<exists>msg. ensureNetwork [''local'', ''goerli'', ''mainnet''] ''kovan'' = Inl (Error msg) \<and>
          sublist ''kovan'' msg \<and> sublist ''local, goerli, mainnet'' msg"
    using ensureNetwork_spec [of "''kovan''" "[''local'', ''goerli'', ''mainnet'']"] by auto
  show ?thesis using a b by blast
qed

subsection \<open>loadAndCheckRequiredSources\<close>

lemma stringify_empty_object: "stringify bn (JObj []) = Inr (''{}'' @ [LF])"
  by (simp add: stringify_def ser_JObj BigNumber_shaped_def lookup_def)

lemma stringify_default_deployment:
  "stringify bn default_deployment = Inr default_deployment_text"
  by (simp add: stringify_def ser_JObj BigNumber_shaped_def lookup_def QuoteJSONString_def
      quote_char_def typeof_object_def isArray_def default_deployment_def
      default_deployment_text_def)

lemma parse_empty_object: "JSON_parse (''{}'' @ [LF]) = Inr (JObj [])"
  using stringify_parse [OF stringify_empty_object, of "\<lambda>v. Inr []"]
  by (simp add: BigNumber_shaped_def lookup_def)

lemma parse_default_deployment: "JSON_parse default_deployment_text = Inr default_deployment"
  using stringify_parse [OF stringify_default_deployment, of "\<lambda>v. Inr []"]
  by (simp add: default_deployment_def BigNumber_shaped_def lookup_def)

lemma load_or_create_absent_deployment:
  assumes "fs fname = None"
  shows "load_or_create d fs fname default_deployment =
           (Inr default_deployment, fs(fname \<mapsto> default_deployment_text))"
  using assms
  by (simp add: load_or_create_def existsSync_def stringify_default_deployment read_json_def
      readFileSync_def writeFileSync_def parse_default_deployment)

lemma load_or_create_absent_actions:
  assumes "fs fname = None"
  shows "load_or_create d fs fname (JObj []) = (Inr (JObj []), fs(fname \<mapsto> ''{}'' @ [LF]))"
  using assms parse_empty_object
  by (simp add: load_or_create_def existsSync_def stringify_empty_object read_json_def
      readFileSync_def writeFileSync_def)

lemma load_or_create_present:
  assumes "fs fname = Some text"
  shows "load_or_create d fs fname dflt = (JSON_parse text, fs)"
  using assms
  by (simp add: load_or_create_def existsSync_def read_json_def readFileSync_def)

lemma load_or_create_frame:
  assumes "load_or_create d fs fname dflt = (result, fs')"
  shows "fs' = fs \<or> (fs fname = None \<and> (\<exists>text. fs' = fs(fname \<mapsto> text)))"
  using assms
  by (auto simp: load_or_create_def existsSync_def writeFileSync_def split: if_splits sum.splits)

lemma propagate_simps [simp]:
  "propagate (Inr v) fs continue = continue v"
  "propagate (Inl err) fs continue = (Inl err, fs)"
  by (simp_all add: propagate_def)

lemma returns_Inr: "returns result \<Longrightarrow> \<exists>v. result = Inr v"
  by (cases result) (simp_all add: returns_def)

lemma set_property_object:
  "set_property (JObj kvs) k x = Inr (JObj (AList.update k x kvs))"
  by (simp add: set_property_def)

lemma propagate_Inr_iff:
  "propagate result fs continue = (Inr r, fs') \<longleftrightarrow>
     (\<exists>v. result = Inr v \<and> continue v = (Inr r, fs'))"
  by (cases result) simp_all

lemma loader_Inr:
  assumes "loadAndCheckRequiredSources d fs dp network freshDeploy = (Inr r, fs')"
  obtains synths_v stakingRewards_v shortingRewards_v config_v params_v futuresMarkets_v
      versions_v feeds_v deployment_0 fs1 deployment_v ownerActions_v
  where "getSynths d fs network dp = Inr synths_v"
    and "getStakingRewards d fs network dp = Inr stakingRewards_v"
    and "getShortingRewards d fs network dp = Inr shortingRewards_v"
    and "read_json fs (path_join d dp (CONFIG_FILENAME d)) = Inr config_v"
    and "read_json fs (path_join d dp (PARAMS_FILENAME d)) = Inr params_v"
    and "read_json fs (path_join d dp (FUTURES_MARKETS_FILENAME d)) = Inr futuresMarkets_v"
    and "(if network \<noteq> ''local'' then getVersions d fs network dp else Inr (JObj [])) =
          Inr versions_v"
    and "getFeeds d fs network dp = Inr feeds_v"
    and "load_or_create d fs (path_join d dp (DEPLOYMENT_FILENAME d))
          (JObj [(''targets'', JObj []), (''sources'', JObj [])]) = (Inr deployment_0, fs1)"
    and "(if freshDeploy then
           (case set_property deployment_0 ''targets'' (JObj []) of
              Inl err \<Rightarrow> Inl err
            | Inr deployment_1 \<Rightarrow> set_property deployment_1 ''sources'' (JObj []))
         else Inr deployment_0) = Inr deployment_v"
    and "load_or_create d fs1 (path_join d dp (OWNER_ACTIONS_FILENAME d)) (JObj []) =
          (Inr ownerActions_v, fs')"
    and "r = \<lparr> config = config_v,
              params = params_v,
              configFile = path_join d dp (CONFIG_FILENAME d),
              synths = synths_v,
              synthsFile = path_join d dp (SYNTHS_FILENAME d),
              stakingRewards = stakingRewards_v,
              stakingRewardsFile = path_join d dp (STAKING_REWARDS_FILENAME d),
              futuresMarkets = futuresMarkets_v,
              futuresMarketsFile = path_join d dp (FUTURES_MARKETS_FILENAME d),
              deployment = deployment_v,
              deploymentFile = path_join d dp (DEPLOYMENT_FILENAME d),
              ownerActions = ownerActions_v,
              ownerActionsFile = path_join d dp (OWNER_ACTIONS_FILENAME d),
              versions = versions_v,
              versionsFile = path_join d dp (VERSIONS_FILENAME d),
              feeds = feeds_v,
              feedsFile = path_join d dp (FEEDS_FILENAME d),
              shortingRewards = shortingRewards_v,
              shortingRewardsFile = path_join d dp (SHORTING_REWARDS_FILENAME d) \<rparr>"
proof -
  from assms obtain synths_v stakingRewards_v shortingRewards_v config_v params_v
      futuresMarkets_v versions_v feeds_v deployment_0 fs1 deployment_v ownerActions_v where
    h: "getSynths d fs network dp = Inr synths_v"
      "getStakingRewards d fs network dp = Inr stakingRewards_v"
      "getShortingRewards d fs network dp = Inr shortingRewards_v"
      "read_json fs (path_join d dp (CONFIG_FILENAME d)) = Inr config_v"
      "read_json fs (path_join d dp (PARAMS_FILENAME d)) = Inr params_v"
      "read_json fs (path_join d dp (FUTURES_MARKETS_FILENAME d)) = Inr futuresMarkets_v"
      "(if network \<noteq> ''local'' then getVersions d fs network dp else Inr (JObj [])) =
          Inr versions_v"
      "getFeeds d fs network dp = Inr feeds_v"
      "load_or_create d fs (path_join d dp (DEPLOYMENT_FILENAME d))
          (JObj [(''targets'', JObj []), (''sources'', JObj [])]) = (Inr deployment_0, fs1)"
      "(if freshDeploy then
           (case set_property deployment_0 ''targets'' (JObj []) of
              Inl err \<Rightarrow> Inl err
            | Inr deployment_1 \<Rightarrow> set_property deployment_1 ''sources'' (JObj []))
         else Inr deployment_0) = Inr deployment_v"
      "load_or_create d fs1 (path_join d dp (OWNER_ACTIONS_FILENAME d)) (JObj []) =
          (Inr ownerActions_v, fs')"
      and r: "r = \<lparr> config = config_v,
              params = params_v,
              configFile = path_join d dp (CONFIG_FILENAME d),
              synths = synths_v,
              synthsFile = path_join d dp (SYNTHS_FILENAME d),
              stakingRewards = stakingRewards_v,
              stakingRewardsFile = path_join d dp (STAKING_REWARDS_FILENAME d),
              futuresMarkets = futuresMarkets_v,
              futuresMarketsFile = path_join d dp (FUTURES_MARKETS_FILENAME d),
              deployment = deployment_v,
              deploymentFile = path_join d dp (DEPLOYMENT_FILENAME d),
              ownerActions = ownerActions_v,
              ownerActionsFile = path_join d dp (OWNER_ACTIONS_FILENAME d),
              versions = versions_v,
              versionsFile = path_join d dp (VERSIONS_FILENAME d),
              feeds = feeds_v,
              feedsFile = path_join d dp (FEEDS_FILENAME d),
              shortingRewards = shortingRewards_v,
              shortingRewardsFile = path_join d dp (SHORTING_REWARDS_FILENAME d) \<rparr>"
    unfolding loadAndCheckRequiredSources_def propagate_Inr_iff Let_def split_def
    by (metis (no_types, lifting) Inr_inject prod.collapse prod.inject)
  from that [OF h r] show thesis .
qed

lemma loader_returns:
  assumes "getSynths d fs network dp = Inr synths_v"
    and "getStakingRewards d fs network dp = Inr stakingRewards_v"
    and "getShortingRewards d fs network dp = Inr shortingRewards_v"
    and "read_json fs (path_join d dp (CONFIG_FILENAME d)) = Inr config_v"
    and "read_json fs (path_join d dp (PARAMS_FILENAME d)) = Inr params_v"
    and "read_json fs (path_join d dp (FUTURES_MARKETS_FILENAME d)) = Inr futuresMarkets_v"
    and "(if network \<noteq> ''local'' then getVersions d fs network dp else Inr (JObj [])) =
          Inr versions_v"
    and "getFeeds d fs network dp = Inr feeds_v"
    and "load_or_create d fs (path_join d dp (DEPLOYMENT_FILENAME d))
          (JObj [(''targets'', JObj []), (''sources'', JObj [])]) = (Inr deployment_0, fs1)"
    and "(if freshDeploy then
           (case set_property deployment_0 ''targets'' (JObj []) of
              Inl err \<Rightarrow> Inl err
            | Inr deployment_1 \<Rightarrow> set_property deployment_1 ''sources'' (JObj []))
         else Inr deployment_0) = Inr deployment_v"
    and "load_or_create d fs1 (path_join d dp (OWNER_ACTIONS_FILENAME d)) (JObj []) =
          (Inr ownerActions_v, fs')"
  shows "loadAndCheckRequiredSources d fs dp network freshDeploy =
     (Inr \<lparr> config = config_v,
              params = params_v,
              configFile = path_join d dp (CONFIG_FILENAME d),
              synths = synths_v,
              synthsFile = path_join d dp (SYNTHS_FILENAME d),
              stakingRewards = stakingRewards_v,
              stakingRewardsFile = path_join d dp (STAKING_REWARDS_FILENAME d),
              futuresMarkets = futuresMarkets_v,
              futuresMarketsFile = path_join d dp (FUTURES_MARKETS_FILENAME d),
              deployment = deployment_v,
              deploymentFile = path_join d dp (DEPLOYMENT_FILENAME d),
              ownerActions = ownerActions_v,
              ownerActionsFile = path_join d dp (OWNER_ACTIONS_FILENAME d),
              versions = versions_v,
              versionsFile = path_join d dp (VERSIONS_FILENAME d),
              feeds = feeds_v,
              feedsFile = path_join d dp (FEEDS_FILENAME d),
              shortingRewards = shortingRewards_v,
              shortingRewardsFile = path_join d dp (SHORTING_REWARDS_FILENAME d) \<rparr>, fs')"
  unfolding loadAndCheckRequiredSources_def
  by (simp only: assms propagate_simps Let_def prod.case)

lemma propagate_frame:
  assumes "propagate result g continue = (res, fs')"
    and "g p = fs p"
    and "\<And>v. continue v = (res, fs') \<Longrightarrow> fs' p = fs p"
  shows "fs' p = fs p"
  using assms by (cases result) auto

lemma load_or_create_then_frame:
  assumes "(let (loaded, fs1) = load_or_create d g fname dflt in K loaded fs1) = (res, fs')"
    and "g p = fs p"
    and "p \<noteq> fname"
    and "\<And>loaded fs1. fs1 p = fs p \<Longrightarrow> K loaded fs1 = (res, fs') \<Longrightarrow> fs' p = fs p"
  shows "fs' p = fs p"
proof (cases "load_or_create d g fname dflt")
  case (Pair loaded fs1)
  from load_or_create_frame [OF Pair] assms(2,3) have "fs1 p = fs p" by auto
  moreover from assms(1) Pair have "K loaded fs1 = (res, fs')" by simp
  ultimately show ?thesis by (rule assms(4))
qed

lemma loader_frame:
  assumes "loadAndCheckRequiredSources d fs dp network freshDeploy = (res, fs')"
    and "p \<noteq> path_join d dp (DEPLOYMENT_FILENAME d)"
    and "p \<noteq> path_join d dp (OWNER_ACTIONS_FILENAME d)"
  shows "fs' p = fs p"
  using assms(1) unfolding loadAndCheckRequiredSources_def
  apply -
  apply (erule propagate_frame [where p = p and fs = fs], rule refl)
  apply (erule propagate_frame [where p = p and fs = fs], rule refl)
  apply (erule propagate_frame [where p = p and fs = fs], rule refl)
  apply (erule propagate_frame [where p = p and fs = fs], rule refl)
  apply (erule propagate_frame [where p = p and fs = fs], rule refl)
  apply (erule propagate_frame [where p = p and fs = fs], rule refl)
  apply (erule propagate_frame [where p = p and fs = fs], rule refl)
  apply (erule propagate_frame [where p = p and fs = fs], rule refl)
  apply (erule load_or_create_then_frame [where p = p and fs = fs], rule refl, rule assms(2))
  apply (erule propagate_frame [where p = p and fs = fs], assumption)
  apply (erule propagate_frame [where p = p and fs = fs], assumption)
  apply (erule load_or_create_then_frame [where p = p and fs = fs], assumption, rule assms(3))
  apply (erule propagate_frame [where p = p and fs = fs], assumption)
  apply simp
  done

lemma loader_missing_input:
  assumes "fs (path_join d dp (CONFIG_FILENAME d)) = None \<or>
           fs (path_join d dp (PARAMS_FILENAME d)) = None \<or>
           fs (path_join d dp (FUTURES_MARKETS_FILENAME d)) = None"
  shows "\<exists>err. loadAndCheckRequiredSources d fs dp network freshDeploy = (Inl err, fs)"
proof -
  have miss: "\<exists>err. read_json fs fname = Inl err" if "fs fname = None" for fname
    using that by (simp add: read_json_def readFileSync_def)
  have p: "\<exists>err. propagate result fs continue = (Inl err, fs)"
    if "\<And>v. \<exists>err. continue v = (Inl err, fs)" for result :: "jserror + json"
      and continue :: "json \<Rightarrow> (jserror + sources) \<times> filesystem"
    using that by (cases result) auto
  have q: "\<exists>err. propagate result fs continue = (Inl err, fs)"
    if "\<exists>err. result = Inl err" for result :: "jserror + json"
      and continue :: "json \<Rightarrow> (jserror + sources) \<times> filesystem"
    using that by auto
  show ?thesis
    unfolding loadAndCheckRequiredSources_def
    apply (rule p, rule p, rule p)
    using assms miss
    apply (elim disjE)
      apply (rule q, blast)
     apply (rule p, rule q, blast)
    apply (rule p, rule p, rule q, blast)
    done
qed

lemma loader_input_fails:
  assumes "\<not> required_inputs_load d fs dp network"
  shows "\<exists>err. loadAndCheckRequiredSources d fs dp network freshDeploy = (Inl err, fs)"
proof -
  have step: "\<exists>err. propagate result fs continue = (Inl err, fs)"
    if "\<And>v. returns result \<Longrightarrow> \<exists>err. continue v = (Inl err, fs)"
    for result :: "jserror + json"
      and continue :: "json \<Rightarrow> (jserror + sources) \<times> filesystem"
  proof (cases result)
    case (Inl err)
    then show ?thesis by simp
  next
    case (Inr v)
    then have "returns result" by (simp add: returns_def)
    from that [OF this, of v] Inr show ?thesis by simp
  qed
  show ?thesis
    unfolding loadAndCheckRequiredSources_def
    apply (rule step)+
    using assms unfolding required_inputs_load_def
    apply blast
    done
qed

lemma fresh_step_default:
  "(if freshDeploy then
      (case set_property default_deployment ''targets'' (JObj []) of
         Inl err \<Rightarrow> Inl err
       | Inr deployment_1 \<Rightarrow> set_property deployment_1 ''sources'' (JObj []))
    else Inr default_deployment) = Inr default_deployment"
  by (simp add: set_property_def default_deployment_def)

lemma fresh_step_object:
  assumes "freshDeploy \<longrightarrow> is_object v"
  shows "\<exists>v'. (if freshDeploy then
      (case set_property v ''targets'' (JObj []) of
         Inl err \<Rightarrow> Inl err
       | Inr deployment_1 \<Rightarrow> set_property deployment_1 ''sources'' (JObj []))
    else Inr v) = Inr v'"
  using assms by (cases v) (auto simp: set_property_def is_object_def)

lemma loads_if_present_Some:
  assumes "loads_if_present fs fname object_needed" and "fs fname = Some text"
  shows "\<exists>v. JSON_parse text = Inr v \<and> (object_needed \<longrightarrow> is_object v)"
  using assms by (auto simp: loads_if_present_def split: sum.splits if_splits)

lemma loader_defaults:
  assumes inputs: "required_inputs_load d fs dp network"
    and distinct: "path_join d dp (DEPLOYMENT_FILENAME d) \<noteq> path_join d dp (OWNER_ACTIONS_FILENAME d)"
    and absent: "fs (path_join d dp (DEPLOYMENT_FILENAME d)) = None \<or>
                 fs (path_join d dp (OWNER_ACTIONS_FILENAME d)) = None"
    and dep: "loads_if_present fs (path_join d dp (DEPLOYMENT_FILENAME d)) freshDeploy"
    and act: "loads_if_present fs (path_join d dp (OWNER_ACTIONS_FILENAME d)) False"
  shows "\<exists>r fs'. loadAndCheckRequiredSources d fs dp network freshDeploy = (Inr r, fs') \<and>
           (fs (path_join d dp (DEPLOYMENT_FILENAME d)) = None \<longrightarrow>
              deployment r = default_deployment \<and>
              fs' (path_join d dp (DEPLOYMENT_FILENAME d)) = Some default_deployment_text) \<and>
           (fs (path_join d dp (OWNER_ACTIONS_FILENAME d)) = None \<longrightarrow>
              ownerActions r = JObj [] \<and>
              fs' (path_join d dp (OWNER_ACTIONS_FILENAME d)) = Some (''{}'' @ [LF])) \<and>
           (\<forall>p. fs p \<noteq> None \<longrightarrow> fs' p = fs p)"
proof -
  define dfile where "dfile = path_join d dp (DEPLOYMENT_FILENAME d)"
  define afile where "afile = path_join d dp (OWNER_ACTIONS_FILENAME d)"
  note names = dfile_def [symmetric] afile_def [symmetric]
  from inputs have r:
      "returns (getSynths d fs network dp)"
      "returns (getStakingRewards d fs network dp)"
      "returns (getShortingRewards d fs network dp)"
      "returns (read_json fs (path_join d dp (CONFIG_FILENAME d)))"
      "returns (read_json fs (path_join d dp (PARAMS_FILENAME d)))"
      "returns (read_json fs (path_join d dp (FUTURES_MARKETS_FILENAME d)))"
      "returns (if network \<noteq> ''local'' then getVersions d fs network dp else Inr (JObj []))"
      "returns (getFeeds d fs network dp)"
    by (simp_all add: required_inputs_load_def)
  obtain synths_v where h1: "getSynths d fs network dp = Inr synths_v"
    using returns_Inr [OF r(1)] by blast
  obtain stakingRewards_v where h2: "getStakingRewards d fs network dp = Inr stakingRewards_v"
    using returns_Inr [OF r(2)] by blast
  obtain shortingRewards_v where h3: "getShortingRewards d fs network dp = Inr shortingRewards_v"
    using returns_Inr [OF r(3)] by blast
  obtain config_v where h4: "read_json fs (path_join d dp (CONFIG_FILENAME d)) = Inr config_v"
    using returns_Inr [OF r(4)] by blast
  obtain params_v where h5: "read_json fs (path_join d dp (PARAMS_FILENAME d)) = Inr params_v"
    using returns_Inr [OF r(5)] by blast
  obtain futuresMarkets_v where
    h6: "read_json fs (path_join d dp (FUTURES_MARKETS_FILENAME d)) = Inr futuresMarkets_v"
    using returns_Inr [OF r(6)] by blast
  obtain versions_v where
    h7: "(if network \<noteq> ''local'' then getVersions d fs network dp else Inr (JObj [])) =
          Inr versions_v"
    using returns_Inr [OF r(7)] by blast
  obtain feeds_v where h8: "getFeeds d fs network dp = Inr feeds_v"
    using returns_Inr [OF r(8)] by blast
  note h = h1 h2 h3 h4 h5 h6 h7 h8
  have first: "\<exists>deployment_0 fs1 deployment_v.
      load_or_create d fs dfile (JObj [(''targets'', JObj []), (''sources'', JObj [])]) =
        (Inr deployment_0, fs1) \<and>
      (if freshDeploy then
         (case set_property deployment_0 ''targets'' (JObj []) of
            Inl err \<Rightarrow> Inl err
          | Inr deployment_1 \<Rightarrow> set_property deployment_1 ''sources'' (JObj []))
       else Inr deployment_0) = Inr deployment_v \<and>
      (fs dfile = None \<longrightarrow> deployment_v = default_deployment \<and>
         fs1 = fs(dfile \<mapsto> default_deployment_text)) \<and>
      (fs dfile \<noteq> None \<longrightarrow> fs1 = fs)"
  proof (cases "fs dfile")
    case None
    from load_or_create_absent_deployment [where fs = fs and fname = dfile and d = d, OF None]
      fresh_step_default [of freshDeploy] None
    show ?thesis unfolding default_deployment_def by blast
  next
    case (Some content)
    from loads_if_present_Some [where fs = fs and fname = dfile, OF dep [unfolded names] Some]
    obtain v where v: "JSON_parse content = Inr v" "freshDeploy \<longrightarrow> is_object v" by blast
    from fresh_step_object [OF v(2)] obtain v' where
      "(if freshDeploy then
         (case set_property v ''targets'' (JObj []) of
            Inl err \<Rightarrow> Inl err
          | Inr deployment_1 \<Rightarrow> set_property deployment_1 ''sources'' (JObj []))
       else Inr v) = Inr v'" by blast
    with load_or_create_present [where fs = fs and fname = dfile and d = d, OF Some] v(1) Some
    show ?thesis by auto
  qed
  then obtain deployment_0 fs1 deployment_v where
    d1: "load_or_create d fs dfile (JObj [(''targets'', JObj []), (''sources'', JObj [])]) =
        (Inr deployment_0, fs1)"
    and d2: "(if freshDeploy then
         (case set_property deployment_0 ''targets'' (JObj []) of
            Inl err \<Rightarrow> Inl err
          | Inr deployment_1 \<Rightarrow> set_property deployment_1 ''sources'' (JObj []))
       else Inr deployment_0) = Inr deployment_v"
    and d3: "fs dfile = None \<longrightarrow> deployment_v = default_deployment \<and>
         fs1 = fs(dfile \<mapsto> default_deployment_text)"
    and d4: "fs dfile \<noteq> None \<longrightarrow> fs1 = fs"
    by (elim exE conjE) (rule that)
  have same: "fs1 afile = fs afile"
    using d3 d4 distinct [unfolded names] by (cases "fs dfile") auto
  have second: "\<exists>ownerActions_v fs'.
      load_or_create d fs1 afile (JObj []) = (Inr ownerActions_v, fs') \<and>
      (fs afile = None \<longrightarrow> ownerActions_v = JObj [] \<and> fs' = fs1(afile \<mapsto> ''{}'' @ [LF])) \<and>
      (fs afile \<noteq> None \<longrightarrow> fs' = fs1)"
  proof (cases "fs afile")
    case None
    then have "fs1 afile = None" using same by simp
    from load_or_create_absent_actions [where fs = fs1 and fname = afile and d = d, OF this] None
    show ?thesis by blast
  next
    case (Some content)
    from loads_if_present_Some [where fs = fs and fname = afile, OF act [unfolded names] Some]
    obtain v where v: "JSON_parse content = Inr v" by blast
    from Some same have "fs1 afile = Some content" by simp
    from load_or_create_present [where fs = fs1 and fname = afile and d = d, OF this] v Some
    show ?thesis by auto
  qed
  then obtain ownerActions_v fs' where
    a1: "load_or_create d fs1 afile (JObj []) = (Inr ownerActions_v, fs')"
    and a2: "fs afile = None \<longrightarrow> ownerActions_v = JObj [] \<and> fs' = fs1(afile \<mapsto> ''{}'' @ [LF])"
    and a3: "fs afile \<noteq> None \<longrightarrow> fs' = fs1"
    by (elim exE conjE) (rule that)
  note run = loader_returns [OF h d1 [unfolded dfile_def] d2 a1 [unfolded afile_def]]
  have c1: "fs dfile = None \<longrightarrow> fs' dfile = Some default_deployment_text"
    using d3 a2 a3 distinct [unfolded names] by (cases "fs afile") auto
  have c2: "fs afile = None \<longrightarrow> fs' afile = Some (''{}'' @ [LF])"
    using a2 by auto
  have c3: "\<forall>p. fs p \<noteq> None \<longrightarrow> fs' p = fs p"
    using d3 d4 a2 a3 by (cases "fs dfile"; cases "fs afile") auto
  show ?thesis
    unfolding names
    using run d3 a2 c1 c2 c3 unfolding names
    by (intro exI conjI) (assumption, simp_all)
qed

lemma parse_samples:
  "JSON_parse ''{}'' = Inr (JObj [])"
  "JSON_parse ''[]'' = Inr (JArr [])"
  "JSON_parse ''null'' = Inr JNull"
  by code_simp+

lemma example_paths [simp]:
  "path_join example_deps dir name = dir @ ''/'' @ name"
  "CONFIG_FILENAME example_deps = ''config.json''"
  "PARAMS_FILENAME example_deps = ''params.json''"
  "DEPLOYMENT_FILENAME example_deps = ''deployment.json''"
  "OWNER_ACTIONS_FILENAME example_deps = ''owner-actions.json''"
  "SYNTHS_FILENAME example_deps = ''synths.json''"
  "STAKING_REWARDS_FILENAME example_deps = ''rewards.json''"
  "SHORTING_REWARDS_FILENAME example_deps = ''shorting-rewards.json''"
  "VERSIONS_FILENAME example_deps = ''versions.json''"
  "FEEDS_FILENAME example_deps = ''feeds.json''"
  "FUTURES_MARKETS_FILENAME example_deps = ''futures-markets.json''"
  by (simp_all add: example_deps_def)

lemma example_loaders [simp]:
  "getSynths example_deps fs network dir = read_json fs (dir @ ''/synths.json'')"
  "getStakingRewards example_deps fs network dir = read_json fs (dir @ ''/rewards.json'')"
  "getShortingRewards example_deps fs network dir = read_json fs (dir @ ''/shorting-rewards.json'')"
  "getVersions example_deps fs network dir = read_json fs (dir @ ''/versions.json'')"
  "getFeeds example_deps fs network dir = read_json fs (dir @ ''/feeds.json'')"
  by (simp_all add: example_deps_def)

lemma example_reads:
  assumes "g ''d/config.json'' = Some ''{}''" and "g ''d/params.json'' = Some ''[]''"
    and "g ''d/synths.json'' = Some ''[]''" and "g ''d/rewards.json'' = Some ''[]''"
    and "g ''d/shorting-rewards.json'' = Some ''[]''" and "g ''d/versions.json'' = Some ''{}''"
    and "g ''d/feeds.json'' = Some ''{}''" and "g ''d/futures-markets.json'' = Some ''[]''"
  shows "read_json g ''d/config.json'' = Inr (JObj [])"
    and "read_json g ''d/params.json'' = Inr (JArr [])"
    and "read_json g ''d/synths.json'' = Inr (JArr [])"
    and "read_json g ''d/rewards.json'' = Inr (JArr [])"
    and "read_json g ''d/shorting-rewards.json'' = Inr (JArr [])"
    and "read_json g ''d/versions.json'' = Inr (JObj [])"
    and "read_json g ''d/feeds.json'' = Inr (JObj [])"
    and "read_json g ''d/futures-markets.json'' = Inr (JArr [])"
  using assms by (simp_all add: read_json_def readFileSync_def parse_samples)

lemma example_fs_files:
  "example_fs ''d/config.json'' = Some ''{}''" "example_fs ''d/params.json'' = Some ''[]''"
  "example_fs ''d/synths.json'' = Some ''[]''" "example_fs ''d/rewards.json'' = Some ''[]''"
  "example_fs ''d/shorting-rewards.json'' = Some ''[]''" "example_fs ''d/versions.json'' = Some ''{}''"
  "example_fs ''d/feeds.json'' = Some ''{}''" "example_fs ''d/futures-markets.json'' = Some ''[]''"
  "example_fs ''d/deployment.json'' = None" "example_fs ''d/owner-actions.json'' = None"
  by (simp_all add: example_fs_def)

lemma example_inputs_load: "required_inputs_load example_deps example_fs ''d'' ''goerli''"
  by (simp add: required_inputs_load_def returns_def example_reads [OF example_fs_files(1-8)])

lemma null_deployment_fs_files:
  "null_deployment_fs ''d/config.json'' = Some ''{}''"
  "null_deployment_fs ''d/params.json'' = Some ''[]''"
  "null_deployment_fs ''d/synths.json'' = Some ''[]''"
  "null_deployment_fs ''d/rewards.json'' = Some ''[]''"
  "null_deployment_fs ''d/shorting-rewards.json'' = Some ''[]''"
  "null_deployment_fs ''d/versions.json'' = Some ''{}''"
  "null_deployment_fs ''d/feeds.json'' = Some ''{}''"
  "null_deployment_fs ''d/futures-markets.json'' = Some ''[]''"
  "null_deployment_fs ''d/deployment.json'' = Some ''null''"
  "null_deployment_fs ''d/owner-actions.json'' = None"
  by (simp_all add: null_deployment_fs_def example_fs_def)

lemma no_rewards_fs_files:
  "no_rewards_fs ''d/config.json'' = Some ''{}''"
  "no_rewards_fs ''d/params.json'' = Some ''[]''"
  "no_rewards_fs ''d/synths.json'' = Some ''[]''"
  "no_rewards_fs ''d/shorting-rewards.json'' = Some ''[]''"
  "no_rewards_fs ''d/versions.json'' = Some ''{}''"
  "no_rewards_fs ''d/feeds.json'' = Some ''{}''"
  "no_rewards_fs ''d/futures-markets.json'' = Some ''[]''"
  "no_rewards_fs ''d/rewards.json'' = None"
  "no_rewards_fs ''d/deployment.json'' = None"
  "no_rewards_fs ''d/owner-actions.json'' = None"
  by (simp_all add: no_rewards_fs_def example_fs_def)

lemma lenient_deps_simps [simp]:
  "path_join lenient_deps dir name = dir @ ''/'' @ name"
  "CONFIG_FILENAME lenient_deps = ''config.json''"
  "PARAMS_FILENAME lenient_deps = ''params.json''"
  "DEPLOYMENT_FILENAME lenient_deps = ''deployment.json''"
  "OWNER_ACTIONS_FILENAME lenient_deps = ''owner-actions.json''"
  "SYNTHS_FILENAME lenient_deps = ''synths.json''"
  "STAKING_REWARDS_FILENAME lenient_deps = ''rewards.json''"
  "SHORTING_REWARDS_FILENAME lenient_deps = ''shorting-rewards.json''"
  "VERSIONS_FILENAME lenient_deps = ''versions.json''"
  "FEEDS_FILENAME lenient_deps = ''feeds.json''"
  "FUTURES_MARKETS_FILENAME lenient_deps = ''futures-markets.json''"
  "getSynths lenient_deps fs network dir = read_json fs (dir @ ''/synths.json'')"
  "getStakingRewards lenient_deps fs network dir =
     (if fs (dir @ ''/rewards.json'') = None then Inr (JArr [])
      else read_json fs (dir @ ''/rewards.json''))"
  "getShortingRewards lenient_deps fs network dir = read_json fs (dir @ ''/shorting-rewards.json'')"
  "getVersions lenient_deps fs network dir = read_json fs (dir @ ''/versions.json'')"
  "getFeeds lenient_deps fs network dir = read_json fs (dir @ ''/feeds.json'')"
  by (simp_all add: lenient_deps_def example_deps_def existsSync_def)

text \<open>
  C3 (as stated, refuted). In the sample directory with a deployment record of content
  \<^verbatim>\<open>null\<close> the eight input files exist and load and the owner-action ledger is
  absent; the call with \<^verbatim>\<open>freshDeploy\<close> throws a TypeError at
  \<^verbatim>\<open>deployment.targets = {}\<close> and leaves the file system as it was, the ledger not
  created. And with a package index whose staking-rewards loader gives the empty list for
  a missing file, the call on the sample directory without \<^verbatim>\<open>rewards.json\<close>
  returns that list: a third file is defaulted, by the loader.
\<close>

theorem loadAndCheckRequiredSources_defaults_refuted:
  "dom null_deployment_fs =
     {''d/config.json'', ''d/params.json'', ''d/synths.json'', ''d/rewards.json'',
      ''d/shorting-rewards.json'', ''d/versions.json'', ''d/feeds.json'',
      ''d/futures-markets.json'', ''d/deployment.json''} \<and>
   required_inputs_load example_deps null_deployment_fs ''d'' ''goerli'' \<and>
   null_deployment_fs ''d/owner-actions.json'' = None \<and>
   loadAndCheckRequiredSources example_deps null_deployment_fs ''d'' ''goerli'' True =
     (Inl (TypeError ''Cannot set properties of null (setting 'targets')''), null_deployment_fs) \<and>
   no_rewards_fs ''d/rewards.json'' = None \<and>
   map_sum id stakingRewards
     (fst (loadAndCheckRequiredSources lenient_deps no_rewards_fs ''d'' ''goerli'' False)) =
     Inr (JArr [])"
proof -
  note reads = example_reads [OF null_deployment_fs_files(1-8)]
  have files: "dom null_deployment_fs =
     {''d/config.json'', ''d/params.json'', ''d/synths.json'', ''d/rewards.json'',
      ''d/shorting-rewards.json'', ''d/versions.json'', ''d/feeds.json'',
      ''d/futures-markets.json'', ''d/deployment.json''}"
    by (auto simp: null_deployment_fs_def example_fs_def)
  have inputs: "required_inputs_load example_deps null_deployment_fs ''d'' ''goerli''"
    by (simp add: required_inputs_load_def returns_def reads)
  have dep: "load_or_create example_deps null_deployment_fs ''d/deployment.json''
      (JObj [(''targets'', JObj []), (''sources'', JObj [])]) = (Inr JNull, null_deployment_fs)"
    using load_or_create_present [where fs = null_deployment_fs and fname = "''d/deployment.json''",
        OF null_deployment_fs_files(9)]
    by (simp add: parse_samples)
  have throws: "loadAndCheckRequiredSources example_deps null_deployment_fs ''d'' ''goerli'' True =
     (Inl (TypeError ''Cannot set properties of null (setting 'targets')''), null_deployment_fs)"
    unfolding loadAndCheckRequiredSources_def
    by (simp add: reads dep set_property_def)
  have reads': "read_json no_rewards_fs ''d/config.json'' = Inr (JObj [])"
    "read_json no_rewards_fs ''d/params.json'' = Inr (JArr [])"
    "read_json no_rewards_fs ''d/synths.json'' = Inr (JArr [])"
    "read_json no_rewards_fs ''d/shorting-rewards.json'' = Inr (JArr [])"
    "read_json no_rewards_fs ''d/versions.json'' = Inr (JObj [])"
    "read_json no_rewards_fs ''d/feeds.json'' = Inr (JObj [])"
    "read_json no_rewards_fs ''d/futures-markets.json'' = Inr (JArr [])"
    by (simp_all add: read_json_def readFileSync_def no_rewards_fs_files parse_samples)
  have dep': "load_or_create lenient_deps no_rewards_fs ''d/deployment.json''
      (JObj [(''targets'', JObj []), (''sources'', JObj [])]) =
      (Inr default_deployment, no_rewards_fs(''d/deployment.json'' \<mapsto> default_deployment_text))"
    using load_or_create_absent_deployment [where fs = no_rewards_fs
        and fname = "''d/deployment.json''" and d = lenient_deps, OF no_rewards_fs_files(9)]
    by (simp add: default_deployment_def)
  have act': "load_or_create lenient_deps
      (no_rewards_fs(''d/deployment.json'' \<mapsto> default_deployment_text))
      ''d/owner-actions.json'' (JObj []) =
      (Inr (JObj []), no_rewards_fs(''d/deployment.json'' \<mapsto> default_deployment_text,
         ''d/owner-actions.json'' \<mapsto> ''{}'' @ [LF]))"
    by (rule load_or_create_absent_actions) (simp add: no_rewards_fs_files)
  have lenient: "map_sum id stakingRewards
     (fst (loadAndCheckRequiredSources lenient_deps no_rewards_fs ''d'' ''goerli'' False)) =
     Inr (JArr [])"
    unfolding loadAndCheckRequiredSources_def
    by (simp add: reads' dep' act' no_rewards_fs_files)
  from files inputs throws lenient show ?thesis
    by (simp add: null_deployment_fs_files no_rewards_fs_files)
qed

text \<open>
  C3 (amended). When the required inputs of a deployment directory load (the loaders of
  the package index that the call uses return, and the configuration, parameter and
  futures-markets files exist and parse), the deployment record or the owner-action
  ledger is absent, and
  whichever of the two is present parses (the record to an object when
  \<^verbatim>\<open>freshDeploy\<close> is set), \<open>loadAndCheckRequiredSources\<close> returns. For an absent
  deployment record it returns \<^verbatim>\<open>{targets: {}, sources: {}}\<close> and for an absent
  ledger \<^verbatim>\<open>{}\<close>, and it leaves the absent file on disk with the text of that
  default, which parses to it; a file that existed keeps its text. These two are the only
  files the function itself defaults: no other path is ever written, whatever the call
  returns; a missing configuration, parameter or futures-markets file makes the call
  throw with the file system untouched; and so does a loader that throws. What a loader
  does with a missing file is decided in the package index. (The two paths are taken to
  differ.)
\<close>

theorem loadAndCheckRequiredSources_defaults:
  "(required_inputs_load d fs dp network \<and>
    path_join d dp (DEPLOYMENT_FILENAME d) \<noteq> path_join d dp (OWNER_ACTIONS_FILENAME d) \<and>
    (fs (path_join d dp (DEPLOYMENT_FILENAME d)) = None \<or>
     fs (path_join d dp (OWNER_ACTIONS_FILENAME d)) = None) \<and>
    loads_if_present fs (path_join d dp (DEPLOYMENT_FILENAME d)) freshDeploy \<and>
    loads_if_present fs (path_join d dp (OWNER_ACTIONS_FILENAME d)) False \<longrightarrow>
      (\<exists>r fs'. loadAndCheckRequiredSources d fs dp network freshDeploy = (Inr r, fs') \<and>
         (fs (path_join d dp (DEPLOYMENT_FILENAME d)) = None \<longrightarrow>
            deployment r = default_deployment \<and>
            fs' (path_join d dp (DEPLOYMENT_FILENAME d)) = Some default_deployment_text) \<and>
         (fs (path_join d dp (OWNER_ACTIONS_FILENAME d)) = None \<longrightarrow>
            ownerActions r = JObj [] \<and>
            fs' (path_join d dp (OWNER_ACTIONS_FILENAME d)) = Some (''{}'' @ [LF])) \<and>
         (\<forall>p. fs p \<noteq> None \<longrightarrow> fs' p = fs p))) \<and>
   JSON_parse default_deployment_text = Inr default_deployment \<and>
   JSON_parse (''{}'' @ [LF]) = Inr (JObj []) \<and>
   (\<forall>p. p \<noteq> path_join d dp (DEPLOYMENT_FILENAME d) \<and>
        p \<noteq> path_join d dp (OWNER_ACTIONS_FILENAME d) \<longrightarrow>
        snd (loadAndCheckRequiredSources d fs dp network freshDeploy) p = fs p) \<and>
   (fs (path_join d dp (CONFIG_FILENAME d)) = None \<or>
    fs (path_join d dp (PARAMS_FILENAME d)) = None \<or>
    fs (path_join d dp (FUTURES_MARKETS_FILENAME d)) = None \<longrightarrow>
      (\<exists>err. loadAndCheckRequiredSources d fs dp network freshDeploy = (Inl err, fs))) \<and>
   (loader_throws d fs dp network \<longrightarrow>
      (\<exists>err. loadAndCheckRequiredSources d fs dp network freshDeploy = (Inl err, fs)))"
proof (intro conjI impI allI)
  assume "required_inputs_load d fs dp network \<and>
    path_join d dp (DEPLOYMENT_FILENAME d) \<noteq> path_join d dp (OWNER_ACTIONS_FILENAME d) \<and>
    (fs (path_join d dp (DEPLOYMENT_FILENAME d)) = None \<or>
     fs (path_join d dp (OWNER_ACTIONS_FILENAME d)) = None) \<and>
    loads_if_present fs (path_join d dp (DEPLOYMENT_FILENAME d)) freshDeploy \<and>
    loads_if_present fs (path_join d dp (OWNER_ACTIONS_FILENAME d)) False"
  then show "\<exists>r fs'. loadAndCheckRequiredSources d fs dp network freshDeploy = (Inr r, fs') \<and>
         (fs (path_join d dp (DEPLOYMENT_FILENAME d)) = None \<longrightarrow>
            deployment r = default_deployment \<and>
            fs' (path_join d dp (DEPLOYMENT_FILENAME d)) = Some default_deployment_text) \<and>
         (fs (path_join d dp (OWNER_ACTIONS_FILENAME d)) = None \<longrightarrow>
            ownerActions r = JObj [] \<and>
            fs' (path_join d dp (OWNER_ACTIONS_FILENAME d)) = Some (''{}'' @ [LF])) \<and>
         (\<forall>p. fs p \<noteq> None \<longrightarrow> fs' p = fs p)"
    using loader_defaults [of d fs dp network freshDeploy] by blast
next
  show "JSON_parse default_deployment_text = Inr default_deployment"
    by (rule parse_default_deployment)
next
  show "JSON_parse (''{}'' @ [LF]) = Inr (JObj [])"
    by (rule parse_empty_object)
next
  fix p
  assume "p \<noteq> path_join d dp (DEPLOYMENT_FILENAME d) \<and>
        p \<noteq> path_join d dp (OWNER_ACTIONS_FILENAME d)"
  then show "snd (loadAndCheckRequiredSources d fs dp network freshDeploy) p = fs p"
    using loader_frame [of d fs dp network freshDeploy
        "fst (loadAndCheckRequiredSources d fs dp network freshDeploy)"
        "snd (loadAndCheckRequiredSources d fs dp network freshDeploy)" p]
    by simp
next
  assume "fs (path_join d dp (CONFIG_FILENAME d)) = None \<or>
    fs (path_join d dp (PARAMS_FILENAME d)) = None \<or>
    fs (path_join d dp (FUTURES_MARKETS_FILENAME d)) = None"
  then show "\<exists>err. loadAndCheckRequiredSources d fs dp network freshDeploy = (Inl err, fs)"
    by (rule loader_missing_input)
next
  assume "loader_throws d fs dp network"
  then have "\<not> required_inputs_load d fs dp network"
    unfolding loader_throws_def required_inputs_load_def by (auto simp: returns_def)
  then show "\<exists>err. loadAndCheckRequiredSources d fs dp network freshDeploy = (Inl err, fs)"
    by (rule loader_input_fails)
qed

theorem loadAndCheckRequiredSources_defaults_witness:
  "(\<exists>r fs'. loadAndCheckRequiredSources example_deps example_fs ''d'' ''goerli'' False = (Inr r, fs') \<and>
      deployment r = JObj [(''targets'', JObj []), (''sources'', JObj [])] \<and>
      ownerActions r = JObj [] \<and>
      fs' ''d/deployment.json'' = Some default_deployment_text \<and>
      fs' ''d/owner-actions.json'' = Some (''{}'' @ [LF]) \<and>
      fs' ''d/config.json'' = Some ''{}'') \<and>
   (\<exists>err. loadAndCheckRequiredSources example_deps no_rewards_fs ''d'' ''goerli'' False =
      (Inl err, no_rewards_fs))"
proof -
  have hyp: "required_inputs_load example_deps example_fs ''d'' ''goerli'' \<and>
    path_join example_deps ''d'' (DEPLOYMENT_FILENAME example_deps) \<noteq>
      path_join example_deps ''d'' (OWNER_ACTIONS_FILENAME example_deps) \<and>
    (example_fs (path_join example_deps ''d'' (DEPLOYMENT_FILENAME example_deps)) = None \<or>
     example_fs (path_join example_deps ''d'' (OWNER_ACTIONS_FILENAME example_deps)) = None) \<and>
    loads_if_present example_fs (path_join example_deps ''d'' (DEPLOYMENT_FILENAME example_deps)) False \<and>
    loads_if_present example_fs (path_join example_deps ''d'' (OWNER_ACTIONS_FILENAME example_deps)) False"
    by (simp add: example_inputs_load example_fs_files loads_if_present_def)
  from loadAndCheckRequiredSources_defaults [of example_deps example_fs "''d''" "''goerli''" False] hyp
  obtain r fs' where
    "loadAndCheckRequiredSources example_deps example_fs ''d'' ''goerli'' False = (Inr r, fs')"
    "deployment r = default_deployment"
    "fs' ''d/deployment.json'' = Some default_deployment_text"
    "ownerActions r = JObj []"
    "fs' ''d/owner-actions.json'' = Some (''{}'' @ [LF])"
    "\<forall>p. example_fs p \<noteq> None \<longrightarrow> fs' p = example_fs p"
    by (auto simp: example_fs_files)
  then have first: "\<exists>r fs'.
      loadAndCheckRequiredSources example_deps example_fs ''d'' ''goerli'' False = (Inr r, fs') \<and>
      deployment r = JObj [(''targets'', JObj []), (''sources'', JObj [])] \<and>
      ownerActions r = JObj [] \<and>
      fs' ''d/deployment.json'' = Some default_deployment_text \<and>
      fs' ''d/owner-actions.json'' = Some (''{}'' @ [LF]) \<and>
      fs' ''d/config.json'' = Some ''{}''"
    by (intro exI [of _ r] exI [of _ fs']) (simp add: default_deployment_def example_fs_files)
  have "loader_throws example_deps no_rewards_fs ''d'' ''goerli''"
    by (simp add: loader_throws_def returns_def read_json_def readFileSync_def
        no_rewards_fs_files)
  with loadAndCheckRequiredSources_defaults [of example_deps no_rewards_fs "''d''" "''goerli''" False]
  have second: "\<exists>err. loadAndCheckRequiredSources example_deps no_rewards_fs ''d'' ''goerli'' False =
      (Inl err, no_rewards_fs)"
    by blast
  from first second show ?thesis by blast
qed

text \<open>
  C4 (as stated, refuted). With a deployment record of content \<^verbatim>\<open>null\<close> the call
  without \<^verbatim>\<open>freshDeploy\<close> returns, its deployment being \<^verbatim>\<open>null\<close>, and the
  call with \<^verbatim>\<open>freshDeploy\<close> throws a TypeError at
  \<^verbatim>\<open>deployment.targets = {}\<close>.
\<close>

theorem loadAndCheckRequiredSources_freshDeploy_null:
  "map_sum id deployment
     (fst (loadAndCheckRequiredSources example_deps null_deployment_fs ''d'' ''goerli'' False)) =
     Inr JNull \<and>
   fst (loadAndCheckRequiredSources example_deps null_deployment_fs ''d'' ''goerli'' True) =
     Inl (TypeError ''Cannot set properties of null (setting 'targets')'')"
proof -
  note reads = example_reads [OF null_deployment_fs_files(1-8)]
  have dep: "load_or_create example_deps null_deployment_fs ''d/deployment.json''
      (JObj [(''targets'', JObj []), (''sources'', JObj [])]) = (Inr JNull, null_deployment_fs)"
    using load_or_create_present [where fs = null_deployment_fs and fname = "''d/deployment.json''",
        OF null_deployment_fs_files(9)]
    by (simp add: parse_samples)
  have act: "load_or_create example_deps null_deployment_fs ''d/owner-actions.json'' (JObj []) =
      (Inr (JObj []), null_deployment_fs(''d/owner-actions.json'' \<mapsto> ''{}'' @ [LF]))"
    using load_or_create_absent_actions [where fs = null_deployment_fs
        and fname = "''d/owner-actions.json''", OF null_deployment_fs_files(10)] .
  have a: "map_sum id deployment
     (fst (loadAndCheckRequiredSources example_deps null_deployment_fs ''d'' ''goerli'' False)) =
     Inr JNull"
    unfolding loadAndCheckRequiredSources_def
    by (simp add: reads dep act)
  have b: "fst (loadAndCheckRequiredSources example_deps null_deployment_fs ''d'' ''goerli'' True) =
     Inl (TypeError ''Cannot set properties of null (setting 'targets')'')"
    unfolding loadAndCheckRequiredSources_def
    by (simp add: reads dep set_property_def)
  show ?thesis using a b by simp
qed

lemma lookup_update:
  "lookup (JObj (AList.update k x kvs)) k' = (if k' = k then Some x else lookup (JObj kvs) k')"
  by (simp add: lookup_def update_conv')

text \<open>
  C4 (amended). Whenever the call without \<^verbatim>\<open>freshDeploy\<close> returns and its
  deployment is an object, the call with \<^verbatim>\<open>freshDeploy\<close> on the same directory
  returns too and leaves the same files; \<^verbatim>\<open>targets\<close> and \<^verbatim>\<open>sources\<close> of its
  deployment are empty objects, the other properties of the deployment are as on disk,
  and every other field of the result is the same as without \<^verbatim>\<open>freshDeploy\<close>.
\<close>

theorem loadAndCheckRequiredSources_freshDeploy:
  assumes "loadAndCheckRequiredSources d fs dp network False = (Inr r, fs')"
    and "deployment r = JObj kvs"
  shows "\<exists>cleared.
           loadAndCheckRequiredSources d fs dp network True =
             (Inr (r\<lparr>deployment := cleared\<rparr>), fs') \<and>
           lookup cleared ''targets'' = Some (JObj []) \<and>
           lookup cleared ''sources'' = Some (JObj []) \<and>
           (\<forall>k. k \<noteq> ''targets'' \<and> k \<noteq> ''sources'' \<longrightarrow> lookup cleared k = lookup (deployment r) k)"
proof -
  from loader_Inr [OF assms(1)]
  obtain synths_v stakingRewards_v shortingRewards_v config_v params_v futuresMarkets_v
      versions_v feeds_v deployment_0 fs1 deployment_v ownerActions_v
  where h: "getSynths d fs network dp = Inr synths_v"
      "getStakingRewards d fs network dp = Inr stakingRewards_v"
      "getShortingRewards d fs network dp = Inr shortingRewards_v"
      "read_json fs (path_join d dp (CONFIG_FILENAME d)) = Inr config_v"
      "read_json fs (path_join d dp (PARAMS_FILENAME d)) = Inr params_v"
      "read_json fs (path_join d dp (FUTURES_MARKETS_FILENAME d)) = Inr futuresMarkets_v"
      "(if network \<noteq> ''local'' then getVersions d fs network dp else Inr (JObj [])) =
          Inr versions_v"
      "getFeeds d fs network dp = Inr feeds_v"
      "load_or_create d fs (path_join d dp (DEPLOYMENT_FILENAME d))
          (JObj [(''targets'', JObj []), (''sources'', JObj [])]) = (Inr deployment_0, fs1)"
    and same: "(if False then
           (case set_property deployment_0 ''targets'' (JObj []) of
              Inl err \<Rightarrow> Inl err
            | Inr deployment_1 \<Rightarrow> set_property deployment_1 ''sources'' (JObj []))
         else Inr deployment_0) = Inr deployment_v"
    and act: "load_or_create d fs1 (path_join d dp (OWNER_ACTIONS_FILENAME d)) (JObj []) =
          (Inr ownerActions_v, fs')"
    and r: "r = \<lparr> config = config_v,
              params = params_v,
              configFile = path_join d dp (CONFIG_FILENAME d),
              synths = synths_v,
              synthsFile = path_join d dp (SYNTHS_FILENAME d),
              stakingRewards = stakingRewards_v,
              stakingRewardsFile = path_join d dp (STAKING_REWARDS_FILENAME d),
              futuresMarkets = futuresMarkets_v,
              futuresMarketsFile = path_join d dp (FUTURES_MARKETS_FILENAME d),
              deployment = deployment_v,
              deploymentFile = path_join d dp (DEPLOYMENT_FILENAME d),
              ownerActions = ownerActions_v,
              ownerActionsFile = path_join d dp (OWNER_ACTIONS_FILENAME d),
              versions = versions_v,
              versionsFile = path_join d dp (VERSIONS_FILENAME d),
              feeds = feeds_v,
              feedsFile = path_join d dp (FEEDS_FILENAME d),
              shortingRewards = shortingRewards_v,
              shortingRewardsFile = path_join d dp (SHORTING_REWARDS_FILENAME d) \<rparr>"
    by blast
  from same r assms(2) have d0: "deployment_0 = JObj kvs" by simp
  define cleared where
    "cleared = JObj (AList.update ''sources'' (JObj []) (AList.update ''targets'' (JObj []) kvs))"
  have step: "(if True then
           (case set_property deployment_0 ''targets'' (JObj []) of
              Inl err \<Rightarrow> Inl err
            | Inr deployment_1 \<Rightarrow> set_property deployment_1 ''sources'' (JObj []))
         else Inr deployment_0) = Inr cleared"
    by (simp add: d0 set_property_def cleared_def)
  have "loadAndCheckRequiredSources d fs dp network True = (Inr (r\<lparr>deployment := cleared\<rparr>), fs')"
    using loader_returns [OF h step act] r by simp
  moreover have "lookup cleared ''targets'' = Some (JObj [])"
    and "lookup cleared ''sources'' = Some (JObj [])"
    and "\<forall>k. k \<noteq> ''targets'' \<and> k \<noteq> ''sources'' \<longrightarrow> lookup cleared k = lookup (deployment r) k"
    by (simp_all add: cleared_def lookup_update assms(2))
  ultimately show ?thesis by blast
qed

lemma filled_deployment_fs_files:
  "filled_deployment_fs ''d/config.json'' = Some ''{}''"
  "filled_deployment_fs ''d/params.json'' = Some ''[]''"
  "filled_deployment_fs ''d/synths.json'' = Some ''[]''"
  "filled_deployment_fs ''d/rewards.json'' = Some ''[]''"
  "filled_deployment_fs ''d/shorting-rewards.json'' = Some ''[]''"
  "filled_deployment_fs ''d/versions.json'' = Some ''{}''"
  "filled_deployment_fs ''d/feeds.json'' = Some ''{}''"
  "filled_deployment_fs ''d/futures-markets.json'' = Some ''[]''"
  "filled_deployment_fs ''d/deployment.json'' =
     Some (''{'' @ [DQ] @ ''targets'' @ [DQ] @ '':{'' @ [DQ] @ ''Issuer'' @ [DQ] @ '':1},'' @
       [DQ] @ ''network'' @ [DQ] @ '':5}'')"
  "filled_deployment_fs ''d/owner-actions.json'' = None"
  by (simp_all add: filled_deployment_fs_def example_fs_def)

lemma parse_filled_deployment:
  "JSON_parse (''{'' @ [DQ] @ ''targets'' @ [DQ] @ '':{'' @ [DQ] @ ''Issuer'' @ [DQ] @ '':1},'' @
       [DQ] @ ''network'' @ [DQ] @ '':5}'') =
   Inr (JObj [(''targets'', JObj [(''Issuer'', JNum 1)]), (''network'', JNum 5)])"
  by code_simp

theorem loadAndCheckRequiredSources_freshDeploy_witness:
  "\<exists>r fs'. loadAndCheckRequiredSources example_deps filled_deployment_fs ''d'' ''goerli'' False =
              (Inr r, fs') \<and>
      deployment r = JObj [(''targets'', JObj [(''Issuer'', JNum 1)]), (''network'', JNum 5)] \<and>
      loadAndCheckRequiredSources example_deps filled_deployment_fs ''d'' ''goerli'' True =
        (Inr (r\<lparr>deployment :=
                  JObj [(''targets'', JObj []), (''network'', JNum 5), (''sources'', JObj [])]\<rparr>), fs')"
proof -
  note reads = example_reads [OF filled_deployment_fs_files(1-8)]
  have dep: "load_or_create example_deps filled_deployment_fs ''d/deployment.json''
      (JObj [(''targets'', JObj []), (''sources'', JObj [])]) =
      (Inr (JObj [(''targets'', JObj [(''Issuer'', JNum 1)]), (''network'', JNum 5)]),
       filled_deployment_fs)"
    using load_or_create_present [where fs = filled_deployment_fs
        and fname = "''d/deployment.json''", OF filled_deployment_fs_files(9)]
    by (simp only: parse_filled_deployment)
  have act: "load_or_create example_deps filled_deployment_fs ''d/owner-actions.json'' (JObj []) =
      (Inr (JObj []), filled_deployment_fs(''d/owner-actions.json'' \<mapsto> ''{}'' @ [LF]))"
    using load_or_create_absent_actions [where fs = filled_deployment_fs
        and fname = "''d/owner-actions.json''", OF filled_deployment_fs_files(10)] .
  obtain r fs' where run:
    "loadAndCheckRequiredSources example_deps filled_deployment_fs ''d'' ''goerli'' False = (Inr r, fs')"
    and d: "deployment r = JObj [(''targets'', JObj [(''Issuer'', JNum 1)]), (''network'', JNum 5)]"
    unfolding loadAndCheckRequiredSources_def
    by (simp add: reads dep act)
  from loadAndCheckRequiredSources_freshDeploy [OF run d]
  obtain cleared where c:
    "loadAndCheckRequiredSources example_deps filled_deployment_fs ''d'' ''goerli'' True =
       (Inr (r\<lparr>deployment := cleared\<rparr>), fs')" by blast
  have "fst (loadAndCheckRequiredSources example_deps filled_deployment_fs ''d'' ''goerli'' True) =
      Inr (r\<lparr>deployment :=
                  JObj [(''targets'', JObj []), (''network'', JNum 5), (''sources'', JObj [])]\<rparr>)"
    using run unfolding loadAndCheckRequiredSources_def
    by (auto simp add: reads dep act set_property_def)
  with c have "loadAndCheckRequiredSources example_deps filled_deployment_fs ''d'' ''goerli'' True =
      (Inr (r\<lparr>deployment :=
                  JObj [(''targets'', JObj []), (''network'', JNum 5), (''sources'', JObj [])]\<rparr>), fs')"
    by simp
  with run d show ?thesis by blast
qed

subsection \<open>getExplorerLinkPrefix\<close>

text \<open>
  C9. For \<^verbatim>\<open>{network: 'mainnet', useOvm: false}\<close> the prefix is
  \<^verbatim>\<open>https://etherscan.io\<close>, and for \<^verbatim>\<open>{network: 'goerli', useOvm: true}\<close>
  it is \<^verbatim>\<open>https://goerli-explorer.optimism.io\<close>.
\<close>

theorem getExplorerLinkPrefix_examples:
  "getExplorerLinkPrefix ''mainnet'' False = ''https://etherscan.io'' \<and>
   getExplorerLinkPrefix ''goerli'' True = ''https://goerli-explorer.optimism.io''"
  by (simp add: getExplorerLinkPrefix_def)

subsection \<open>Regular expressions\<close>

lemma nullable_lang: "nullable r \<longleftrightarrow> [] \<in> lang r"
proof (induction r)
  case (RPlus r)
  have "[] \<in> plus_lang L \<Longrightarrow> [] \<in> L" for L :: "string set"
  proof -
    assume "[] \<in> plus_lang L"
    then show "[] \<in> L"
      by (induction "[]::string" rule: plus_lang.induct) auto
  qed
  then show ?case using RPlus by (auto intro: plus_lang.one)
qed auto

lemma plus_lang_cons_imp:
  assumes "x \<in> plus_lang L" and "x = c # w"
  shows "\<exists>u v. w = u @ v \<and> c # u \<in> L \<and> (v = [] \<or> v \<in> plus_lang L)"
  using assms
proof (induction arbitrary: w rule: plus_lang.induct)
  case (one x)
  then show ?case by auto
next
  case (more x v)
  show ?case
  proof (cases x)
    case Nil
    with more show ?thesis by simp
  next
    case (Cons d u)
    with more have "d = c" and "w = u @ v" by auto
    with more Cons show ?thesis by blast
  qed
qed

lemma plus_lang_cons:
  "c # w \<in> plus_lang L \<longleftrightarrow>
     (\<exists>u v. w = u @ v \<and> c # u \<in> L \<and> (v = [] \<or> v \<in> plus_lang L))"
proof
  assume "c # w \<in> plus_lang L"
  then show "\<exists>u v. w = u @ v \<and> c # u \<in> L \<and> (v = [] \<or> v \<in> plus_lang L)"
    using plus_lang_cons_imp by blast
next
  assume "\<exists>u v. w = u @ v \<and> c # u \<in> L \<and> (v = [] \<or> v \<in> plus_lang L)"
  then obtain u v where w: "w = u @ v" and u: "c # u \<in> L" and v: "v = [] \<or> v \<in> plus_lang L"
    by blast
  from v show "c # w \<in> plus_lang L"
  proof
    assume "v = []"
    with w u show ?thesis by (simp add: plus_lang.one)
  next
    assume "v \<in> plus_lang L"
    then have "(c # u) @ v \<in> plus_lang L" using u by (rule plus_lang.more [rotated])
    with w show ?thesis by simp
  qed
qed

lemma deriv_lang: "w \<in> lang (deriv c r) \<longleftrightarrow> c # w \<in> lang r"
proof (induction r arbitrary: w)
  case (RSeq r s)
  show ?case
  proof (cases "nullable r")
    case True
    then have n: "[] \<in> lang r" by (simp add: nullable_lang)
    show ?thesis
      using True n RSeq by (auto simp: Cons_eq_append_conv)
  next
    case False
    then have n: "[] \<notin> lang r" by (simp add: nullable_lang)
    show ?thesis
      using False n RSeq by (auto simp: Cons_eq_append_conv)
  qed
next
  case (RPlus r)
  show ?case
    using RPlus by (auto simp: plus_lang_cons)
qed auto

lemma match_here_lang: "match_here r s \<longleftrightarrow> (\<exists>p q. s = p @ q \<and> p \<in> lang r)"
proof (induction s arbitrary: r)
  case Nil
  then show ?case by (simp add: nullable_lang)
next
  case (Cons c cs)
  show ?case
  proof
    assume "match_here r (c # cs)"
    then consider "nullable r" | "match_here (deriv c r) cs" by auto
    then show "\<exists>p q. c # cs = p @ q \<and> p \<in> lang r"
    proof cases
      case 1
      then have "[] \<in> lang r" by (simp add: nullable_lang)
      then show ?thesis by (metis append_Nil)
    next
      case 2
      then obtain p q where "cs = p @ q" and "p \<in> lang (deriv c r)" using Cons by blast
      then have "c # cs = (c # p) @ q" and "c # p \<in> lang r" by (simp_all add: deriv_lang)
      then show ?thesis by blast
    qed
  next
    assume "\<exists>p q. c # cs = p @ q \<and> p \<in> lang r"
    then obtain p q where pq: "c # cs = p @ q" and p: "p \<in> lang r" by blast
    show "match_here r (c # cs)"
    proof (cases p)
      case Nil
      with p show ?thesis by (simp add: nullable_lang)
    next
      case (Cons d p')
      with pq p have "cs = p' @ q" and "p' \<in> lang (deriv c r)" by (simp_all add: deriv_lang)
      then have "match_here (deriv c r) cs" using Cons.IH by blast
      then show ?thesis by simp
    qed
  qed
qed

lemma regex_test_lang: "regex_test r s \<longleftrightarrow> (\<exists>a p b. s = a @ p @ b \<and> p \<in> lang r)"
proof (induction s)
  case Nil
  then show ?case by (simp add: nullable_lang)
next
  case (Cons c cs)
  show ?case
  proof
    assume "regex_test r (c # cs)"
    then consider "match_here r (c # cs)" | "regex_test r cs" by auto
    then show "\<exists>a p b. c # cs = a @ p @ b \<and> p \<in> lang r"
    proof cases
      case 1
      then obtain p q where "c # cs = [] @ p @ q" and "p \<in> lang r"
        by (auto simp: match_here_lang)
      then show ?thesis by blast
    next
      case 2
      then obtain a p b where "cs = a @ p @ b" and "p \<in> lang r" using Cons by blast
      then have "c # cs = (c # a) @ p @ b" and "p \<in> lang r" by simp_all
      then show ?thesis by blast
    qed
  next
    assume "\<exists>a p b. c # cs = a @ p @ b \<and> p \<in> lang r"
    then obtain a p b where apb: "c # cs = a @ p @ b" and p: "p \<in> lang r" by blast
    show "regex_test r (c # cs)"
    proof (cases a)
      case Nil
      with apb p have "match_here r (c # cs)" by (auto simp: match_here_lang)
      then show ?thesis by simp
    next
      case (Cons d a')
      with apb have "cs = a' @ p @ b" by simp
      with p have "regex_test r cs" using Cons.IH by blast
      then show ?thesis by simp
    qed
  qed
qed

lemma lang_rlit: "lang (rlit s) = {s}"
  by (induction s) auto

lemma contains_char: "(\<exists>a b. s = a @ [c] @ b) \<longleftrightarrow> c \<in> set s"
  by (simp add: in_set_conv_decomp)

lemma confirm_re_test:
  "regex_test confirm_re s \<longleftrightarrow> CHR ''y'' \<in> set s \<or> CHR ''Y'' \<in> set s"
proof -
  have L: "lang confirm_re = {''y'', ''Y''}"
    by (auto simp: confirm_re_def)
  have "regex_test confirm_re s \<longleftrightarrow>
          (\<exists>a b. s = a @ ''y'' @ b) \<or> (\<exists>a b. s = a @ ''Y'' @ b)"
    unfolding regex_test_lang L by blast
  then show ?thesis unfolding contains_char .
qed

lemma missing_address_re_test:
  "regex_test missing_address_re s \<longleftrightarrow>
     (\<exists>a w c b. s = a @ ''Missing address:'' @ [w, c] @ b \<and> is_space w \<and> is_word c)"
proof
  assume "regex_test missing_address_re s"
  then obtain a p b where s: "s = a @ p @ b" and p: "p \<in> lang missing_address_re"
    by (auto simp: regex_test_lang)
  from p obtain w i where p': "p = ''Missing address:'' @ [w] @ i" and w: "is_space w"
    and i: "i \<in> plus_lang {[c] | c. is_word c}"
    by (auto simp: missing_address_re_def lang_rlit)
  from i obtain c i' where "i = c # i'" and "is_word c"
    by (induction rule: plus_lang.induct) auto
  with s p' w have "s = a @ ''Missing address:'' @ [w, c] @ (i' @ b) \<and> is_space w \<and> is_word c"
    by simp
  then show "\<exists>a w c b. s = a @ ''Missing address:'' @ [w, c] @ b \<and> is_space w \<and> is_word c"
    by blast
next
  assume "\<exists>a w c b. s = a @ ''Missing address:'' @ [w, c] @ b \<and> is_space w \<and> is_word c"
  then obtain a w c b where s: "s = a @ ''Missing address:'' @ [w, c] @ b"
    and w: "is_space w" and c: "is_word c" by blast
  have "[c] \<in> lang (RPlus (RClass is_word))" using c by (auto intro: plus_lang.one)
  moreover have "[w] \<in> lang (RClass is_space)" using w by simp
  ultimately have "[w] @ [c] \<in> lang (RSeq (RClass is_space) (RPlus (RClass is_word)))"
    unfolding lang.simps(5) by blast
  then have "''Missing address:'' @ [w] @ [c] \<in> lang missing_address_re"
    unfolding missing_address_re_def lang.simps(5) lang_rlit by blast
  moreover have "s = a @ (''Missing address:'' @ [w] @ [c]) @ b" using s by simp
  ultimately show "regex_test missing_address_re s"
    unfolding regex_test_lang by blast
qed

subsection \<open>loadConnections\<close>

text \<open>
  C1 (as stated, refuted). With \<^verbatim>\<open>network\<close> \<open>''goerli''\<close>, \<^verbatim>\<open>useFork\<close> and
  \<^verbatim>\<open>useOvm\<close> false and no variable set, \<open>loadConnections\<close> throws a TypeError and
  returns no object.
\<close>

theorem loadConnections_unset_PROVIDER_URL_throws:
  "loadConnections Map.empty ''goerli'' False False =
     Inl (TypeError ''Cannot read properties of undefined (reading 'replace')'')"
  by (simp add: loadConnections_def truthy_env_def)

text \<open>
  C1 (amended). For a network other than \<open>''local''\<close> and \<^verbatim>\<open>useFork\<close> false,
  \<open>loadConnections\<close> returns whenever \<^verbatim>\<open>useOvm\<close> is true, or the network is
  \<open>''mainnet''\<close> and \<^verbatim>\<open>PROVIDER_URL_MAINNET\<close> is set and not empty, or
  \<^verbatim>\<open>PROVIDER_URL\<close> is set. Then \<^verbatim>\<open>privateKey\<close> is the value of the key
  variable of the network, undefined when that variable is unset, and
  \<^verbatim>\<open>providerUrl\<close> is undefined exactly when \<^verbatim>\<open>useOvm\<close> is true and neither
  OVM variable that applies is set and not empty. In every remaining case, that is
  \<^verbatim>\<open>useOvm\<close> false, \<^verbatim>\<open>PROVIDER_URL\<close> unset, and the network not
  \<open>''mainnet''\<close> or \<^verbatim>\<open>PROVIDER_URL_MAINNET\<close> unset or empty, the call throws a
  TypeError and returns no object.
\<close>

theorem loadConnections_returns:
  assumes "network \<noteq> ''local''" and "\<not> useFork"
  shows "(useOvm \<or> (network = ''mainnet'' \<and> truthy_env (env ''PROVIDER_URL_MAINNET''))
          \<or> env ''PROVIDER_URL'' \<noteq> None \<longrightarrow>
          (\<exists>c. loadConnections env network useFork useOvm = Inr c \<and>
             privateKey c = env (if network = ''mainnet'' then ''DEPLOY_PRIVATE_KEY''
                                 else ''TESTNET_DEPLOY_PRIVATE_KEY'') \<and>
             (providerUrl c = None \<longleftrightarrow>
                useOvm \<and> \<not> (network = ''mainnet'' \<and> truthy_env (env ''OVM_PROVIDER_URL'')) \<and>
                \<not> truthy_env (env ''OVM_GOERLI_PROVIDER_URL'')))) \<and>
         (\<not> useOvm \<and> \<not> (network = ''mainnet'' \<and> truthy_env (env ''PROVIDER_URL_MAINNET'')) \<and>
          env ''PROVIDER_URL'' = None \<longrightarrow>
          loadConnections env network useFork useOvm =
            Inl (TypeError ''Cannot read properties of undefined (reading 'replace')''))"
proof (intro conjI impI)
  assume "useOvm \<or> (network = ''mainnet'' \<and> truthy_env (env ''PROVIDER_URL_MAINNET''))
          \<or> env ''PROVIDER_URL'' \<noteq> None"
  with assms show "\<exists>c. loadConnections env network useFork useOvm = Inr c \<and>
             privateKey c = env (if network = ''mainnet'' then ''DEPLOY_PRIVATE_KEY''
                                 else ''TESTNET_DEPLOY_PRIVATE_KEY'') \<and>
             (providerUrl c = None \<longleftrightarrow>
                useOvm \<and> \<not> (network = ''mainnet'' \<and> truthy_env (env ''OVM_PROVIDER_URL'')) \<and>
                \<not> truthy_env (env ''OVM_GOERLI_PROVIDER_URL''))"
    by (auto simp: loadConnections_def truthy_env_def split: option.splits)
next
  assume "\<not> useOvm \<and> \<not> (network = ''mainnet'' \<and> truthy_env (env ''PROVIDER_URL_MAINNET'')) \<and>
          env ''PROVIDER_URL'' = None"
  with assms show "loadConnections env network useFork useOvm =
            Inl (TypeError ''Cannot read properties of undefined (reading 'replace')'')"
    by (auto simp: loadConnections_def)
qed

theorem loadConnections_returns_witness:
  "(\<exists>c. loadConnections Map.empty ''goerli'' False True = Inr c \<and>
       privateKey c = None \<and> providerUrl c = None) \<and>
   loadConnections [''PROVIDER_URL_MAINNET'' \<mapsto> ''https://node.example''] ''kovan'' False False =
     Inl (TypeError ''Cannot read properties of undefined (reading 'replace')'')"
  using loadConnections_returns [of "''goerli''" False True Map.empty]
    loadConnections_returns [of "''kovan''" False False
      "[''PROVIDER_URL_MAINNET'' \<mapsto> ''https://node.example'']"]
  by (simp add: truthy_env_def)

subsection \<open>confirmAction\<close>

text \<open>
  C2 (as stated, refuted). The answer \<open>''yes''\<close> is neither \<open>''y''\<close> nor \<open>''Y''\<close>, and
  the promise resolves.
\<close>

theorem confirmAction_yes_resolves:
  "confirmAction ''Continue? '' ''yes'' = Inr () \<and> ''yes'' \<noteq> ''y'' \<and> ''yes'' \<noteq> ''Y''"
  by (simp add: confirmAction_def confirm_re_def)

text \<open>
  C2 (amended). The promise resolves exactly when the answer contains the character
  \<open>y\<close> or \<open>Y\<close>, and for every other answer it is rejected with an error whose message
  is \<open>''Not confirmed''\<close>.
\<close>

theorem confirmAction_spec:
  "confirmAction prompt answer =
     (if CHR ''y'' \<in> set answer \<or> CHR ''Y'' \<in> set answer then Inr ()
      else Inl (Error ''Not confirmed''))"
  by (simp add: confirmAction_def confirm_re_test)

theorem confirmAction_spec_witness:
  "confirmAction ''Continue? '' ''y'' = Inr () \<and> confirmAction ''Continue? '' ''Y'' = Inr () \<and>
   confirmAction ''Continue? '' ''n'' = Inl (Error ''Not confirmed'') \<and>
   message (Error ''Not confirmed'') = ''Not confirmed''"
  using confirmAction_spec [of "''Continue? ''" "''y''"]
    confirmAction_spec [of "''Continue? ''" "''Y''"]
    confirmAction_spec [of "''Continue? ''" "''n''"]
  by (simp add: Error_def)

subsection \<open>catchMissingResolverWhenGeneratingSolidity\<close>

text \<open>
  C5. \<open>catchMissingResolverWhenGeneratingSolidity\<close> returns normally exactly when
  \<^verbatim>\<open>generateSolidity\<close> or \<^verbatim>\<open>dryRun\<close> is true and the message of the error
  matches the pattern, that is, contains \<open>''Missing address:''\<close> followed by a white
  space character and a word character (the first of the identifier); in every other
  case it throws the error it was given, unchanged.
\<close>

theorem catchMissingResolverWhenGeneratingSolidity_spec:
  "catchMissingResolverWhenGeneratingSolidity contract dryRun err generateSolidity =
     (if (generateSolidity \<or> dryRun) \<and>
         (\<exists>a w c b. message err = a @ ''Missing address:'' @ [w, c] @ b \<and> is_space w \<and> is_word c)
      then Inr () else Inl err)"
  by (simp add: catchMissingResolverWhenGeneratingSolidity_def missing_address_re_test)

theorem catchMissingResolverWhenGeneratingSolidity_spec_witness:
  "catchMissingResolverWhenGeneratingSolidity ''Issuer'' False
     (Error ''Missing address: FeePool'') True = Inr () \<and>
   catchMissingResolverWhenGeneratingSolidity ''Issuer'' True
     (Error ''Missing address: FeePool'') False = Inr () \<and>
   catchMissingResolverWhenGeneratingSolidity ''Issuer'' False
     (Error ''Missing address: FeePool'') False = Inl (Error ''Missing address: FeePool'') \<and>
   catchMissingResolverWhenGeneratingSolidity ''Issuer'' True
     (Error ''Out of gas'') True = Inl (Error ''Out of gas'')"
proof -
  have m: "\<exists>a w c b. ''Missing address: FeePool'' = a @ ''Missing address:'' @ [w, c] @ b \<and>
             is_space w \<and> is_word c"
    by (rule exI [of _ "[]"], rule exI [of _ "CHR '' ''"], rule exI [of _ "CHR ''F''"],
        rule exI [of _ "''eePool''"]) (simp add: is_space_def is_word_def)
  have n: "\<not> (\<exists>a w c b. ''Out of gas'' = a @ ''Missing address:'' @ [w, c] @ b \<and>
             is_space w \<and> is_word c)"
    using missing_address_re_test [of "''Out of gas''"]
    by (simp add: missing_address_re_def)
  show ?thesis
    using m n
      catchMissingResolverWhenGeneratingSolidity_spec
        [of "''Issuer''" False "Error ''Missing address: FeePool''" True]
      catchMissingResolverWhenGeneratingSolidity_spec
        [of "''Issuer''" True "Error ''Missing address: FeePool''" False]
      catchMissingResolverWhenGeneratingSolidity_spec
        [of "''Issuer''" False "Error ''Missing address: FeePool''" False]
      catchMissingResolverWhenGeneratingSolidity_spec
        [of "''Issuer''" True "Error ''Out of gas''" True]
    by (simp add: Error_def)
qed

subsection \<open>assignGasOptions\<close>

lemma assignGasOptions_no_fee_data:
  assumes "(\<exists>e. getFeeData = Inl e) \<or>
           (\<exists>fd. getFeeData = Inr fd \<and> \<not> truthy (get_prop fd ''maxFeePerGas''))"
  shows "assignGasOptions parseUnits getFeeData tx maxFeePerGas maxPriorityFeePerGas = Inr tx"
  using assms
  by (auto simp: assignGasOptions_def object_assign_def get_prop_def)

lemma assignGasOptions_caller_wins:
  assumes "assignGasOptions parseUnits getFeeData tx maxFeePerGas maxPriorityFeePerGas = Inr r"
    and "k \<in> dom tx"
  shows "r k = tx k"
  using assms unfolding assignGasOptions_def object_assign_def Let_def
  by (auto simp: map_add_def split: if_splits sum.splits option.splits)

lemma assignGasOptions_dom:
  assumes "assignGasOptions parseUnits getFeeData tx maxFeePerGas maxPriorityFeePerGas = Inr r"
  shows "dom r \<subseteq> dom tx \<union> {''type'', ''maxFeePerGas'', ''maxPriorityFeePerGas''}"
  using assms unfolding assignGasOptions_def object_assign_def Let_def
  by (auto split: if_splits sum.splits)

lemma assignGasOptions_type:
  assumes "assignGasOptions parseUnits getFeeData tx maxFeePerGas maxPriorityFeePerGas = Inr r"
    and "getFeeData = Inr fd" and "truthy (get_prop fd ''maxFeePerGas'')"
    and "''type'' \<notin> dom tx"
  shows "r ''type'' = Some (Number 2)"
  using assms unfolding assignGasOptions_def object_assign_def Let_def
  by (auto simp: map_add_def split: if_splits sum.splits option.splits)

text \<open>
  C6. When the fee-data query throws, or the fee data has no (truthy)
  \<^verbatim>\<open>maxFeePerGas\<close>, \<open>assignGasOptions\<close> resolves to an object with exactly the
  fields of \<^verbatim>\<open>tx\<close>. Whenever it resolves, every field of \<^verbatim>\<open>tx\<close> is in the
  result with the caller's value, also a field named \<^verbatim>\<open>type\<close>,
  \<^verbatim>\<open>maxFeePerGas\<close> or \<^verbatim>\<open>maxPriorityFeePerGas\<close>; the only other fields are these
  three gas fields, and \<^verbatim>\<open>type\<close> is 2 when the fee data has a
  \<^verbatim>\<open>maxFeePerGas\<close> and the caller gave no \<^verbatim>\<open>type\<close>.
\<close>

theorem assignGasOptions_spec:
  "((\<exists>e. getFeeData = Inl e) \<or> (\<exists>fd. getFeeData = Inr fd \<and> \<not> truthy (get_prop fd ''maxFeePerGas''))
      \<longrightarrow> assignGasOptions parseUnits getFeeData tx maxFeePerGas maxPriorityFeePerGas = Inr tx) \<and>
   (\<forall>r. assignGasOptions parseUnits getFeeData tx maxFeePerGas maxPriorityFeePerGas = Inr r \<longrightarrow>
      (\<forall>k \<in> dom tx. r k = tx k) \<and>
      dom r \<subseteq> dom tx \<union> {''type'', ''maxFeePerGas'', ''maxPriorityFeePerGas''} \<and>
      ((\<exists>fd. getFeeData = Inr fd \<and> truthy (get_prop fd ''maxFeePerGas'')) \<and> ''type'' \<notin> dom tx
         \<longrightarrow> r ''type'' = Some (Number 2)))"
  using assignGasOptions_no_fee_data [of getFeeData parseUnits tx maxFeePerGas maxPriorityFeePerGas]
    assignGasOptions_caller_wins [of parseUnits getFeeData tx maxFeePerGas maxPriorityFeePerGas]
    assignGasOptions_dom [of parseUnits getFeeData tx maxFeePerGas maxPriorityFeePerGas]
    assignGasOptions_type [of parseUnits getFeeData tx maxFeePerGas maxPriorityFeePerGas]
  by blast

theorem assignGasOptions_spec_witness:
  "assignGasOptions (\<lambda>s u. Inr 5) (Inl (Error ''unsupported'')) [''to'' \<mapsto> String ''0xabc'']
     (String ''3'') Undefined = Inr [''to'' \<mapsto> String ''0xabc''] \<and>
   (\<exists>r. assignGasOptions (\<lambda>s u. Inr 5) (Inr [''maxFeePerGas'' \<mapsto> BigNumber 7])
          [''maxFeePerGas'' \<mapsto> Number 1] (String ''3'') Undefined = Inr r \<and>
        r ''maxFeePerGas'' = Some (Number 1) \<and> r ''type'' = Some (Number 2))"
proof -
  have a: "assignGasOptions (\<lambda>s u. Inr 5) (Inl (Error ''unsupported''))
       [''to'' \<mapsto> String ''0xabc''] (String ''3'') Undefined = Inr [''to'' \<mapsto> String ''0xabc'']"
    using assignGasOptions_spec [of "Inl (Error ''unsupported'')" "\<lambda>s u. Inr 5"
        "[''to'' \<mapsto> String ''0xabc'']" "String ''3''" Undefined]
    by simp
  define R where "R = [''type'' \<mapsto> Number 2, ''maxFeePerGas'' \<mapsto> BigNumber 5] ++
      [''maxFeePerGas'' \<mapsto> Number 1]"
  have r: "assignGasOptions (\<lambda>s u. Inr 5) (Inr [''maxFeePerGas'' \<mapsto> BigNumber 7])
       [''maxFeePerGas'' \<mapsto> Number 1] (String ''3'') Undefined = Inr R"
    by (simp add: assignGasOptions_def object_assign_def get_prop_def R_def)
  have b: "R ''maxFeePerGas'' = Some (Number 1) \<and> R ''type'' = Some (Number 2)"
    using r assignGasOptions_spec [of "Inr [''maxFeePerGas'' \<mapsto> BigNumber 7]" "\<lambda>s u. Inr 5"
        "[''maxFeePerGas'' \<mapsto> Number 1]" "String ''3''" Undefined]
    by (simp add: get_prop_def)
  show ?thesis using a r b by blast
qed

end
